theory Spec2Isabelle
  imports Main "HOL-Library.Multiset" "HOL-Library.Sublist"
begin

section \<open>Data model\<close>

text \<open>
  The command \<^verbatim>\<open>junit upload\<close> (class \<^verbatim>\<open>UploadJUnitXMLCommand\<close>) finds jUnit XML
  report files, validates them, builds one payload for each valid file and uploads the
  payloads through a bounded pool, retrying an upload that failed with a retryable status.

  A JavaScript value that may be \<^verbatim>\<open>undefined\<close> is an \<open>option\<close>; a string is tested for
  truthiness where the source writes \<^verbatim>\<open>!x\<close> or \<^verbatim>\<open>x ? a : b\<close>.
\<close>

type_synonym tags = "string \<rightharpoonup> string"

text \<open>\<^verbatim>\<open>Payload\<close> of \<^verbatim>\<open>interfaces.ts\<close>, as \<^verbatim>\<open>getMatchingJUnitXMLFiles\<close> builds it.\<close>

record payload =
  service :: string
  spanTags :: tags
  xmlPath :: string

text \<open>
  The error a failed call of \<^verbatim>\<open>api.uploadJUnitXML\<close> throws. The source reads two of its
  properties: \<^verbatim>\<open>error.response\<close> (present on an axios error that got an answer; then
  \<^verbatim>\<open>error.response.status\<close> is the status code) and \<^verbatim>\<open>error.message\<close>.
\<close>

record upload_error =
  response :: "int option"
  message :: string

datatype api_result = Uploaded | Rejected upload_error

text \<open>
  The upload endpoint is outside the program: \<open>api p n\<close> is what the \<open>n\<close>-th call of
  \<^verbatim>\<open>api.uploadJUnitXML\<close> for payload \<open>p\<close> does (calls are counted from 1).
\<close>

type_synonym api = "payload \<Rightarrow> nat \<Rightarrow> api_result"

text \<open>
  What the command writes, in the order of writing: one constructor for each renderer of
  \<^verbatim>\<open>renderer.ts\<close> (the arguments are those the renderer puts into the line; colours, icons
  and the wording are left out), one for each of the three lines \<^verbatim>\<open>execute\<close> and
  \<^verbatim>\<open>getApiHelper\<close> write themselves (the first two go to the error stream), and one,
  \<open>ApiUpload\<close>, for each call of \<^verbatim>\<open>api.uploadJUnitXML\<close>.
\<close>

datatype event =
    MissingService
  | MissingBasePath
  | ApiKeyMissingNotice
  | CommandInfo "string list" string nat bool
  | InvalidFile string string
  | DryRunUpload string
  | ApiUpload string
  | RetriedUpload string string nat
  | FailedUpload string upload_error
  | SuccessfulCommand nat

definition truthy :: "string option \<Rightarrow> bool" where
  "truthy v = (case v of None \<Rightarrow> False | Some s \<Rightarrow> s \<noteq> [])"

section \<open>Uploading one payload\<close>

definition errorCodesNoRetry :: "int list" where
  "errorCodesNoRetry = [400, 403, 413]"

definition errorCodesStopUpload :: "int list" where
  "errorCodesStopUpload = [400, 403]"

text \<open>
  How one run of the function given to \<^verbatim>\<open>retry\<close> ends: it returns, it throws (the retry
  library then decides whether to run it again), or it calls \<^verbatim>\<open>bail\<close> (no further run).
\<close>

datatype attempt_outcome = Resolved | Thrown upload_error | Bailed upload_error

text \<open>The function given to \<^verbatim>\<open>retry\<close> in \<^verbatim>\<open>uploadJUnitXML\<close>; \<open>num\<close> is the attempt number.\<close>

definition upload_attempt :: "bool \<Rightarrow> api \<Rightarrow> payload \<Rightarrow> nat \<Rightarrow> event list \<times> attempt_outcome" where
  "upload_attempt dryRun api jUnitXML num =
     (if dryRun then ([DryRunUpload (xmlPath jUnitXML)], Resolved)
      else
        (case api jUnitXML num of
           Uploaded \<Rightarrow> ([ApiUpload (xmlPath jUnitXML)], Resolved)
         | Rejected error \<Rightarrow>
             ([ApiUpload (xmlPath jUnitXML)],
              (case response error of
                 Some status \<Rightarrow>
                   if status \<notin> set errorCodesNoRetry then Thrown error else Bailed error
               | None \<Rightarrow> Bailed error))))"

text \<open>
  \<^verbatim>\<open>mainError\<close> of the retry library: the error whose message occurred most often among the
  errors recorded, the later one on a tie. \<open>counts\<close> maps a message to its occurrences so far.
\<close>

fun mainError_loop ::
  "upload_error list \<Rightarrow> (string \<Rightarrow> nat) \<Rightarrow> upload_error option \<Rightarrow> nat \<Rightarrow> upload_error option" where
  "mainError_loop [] counts mainError mainErrorCount = mainError"
| "mainError_loop (error # errors) counts mainError mainErrorCount =
     (let count = counts (message error) + 1;
          counts' = counts (message error := count)
      in if count \<ge> mainErrorCount
         then mainError_loop errors counts' (Some error) count
         else mainError_loop errors counts' mainError mainErrorCount)"

definition mainError :: "upload_error list \<Rightarrow> upload_error option" where
  "mainError errors = mainError_loop errors (\<lambda>_. 0) None 0"

text \<open>
  \<^verbatim>\<open>retry(fn, {onRetry, retries})\<close> of the library async-retry, as the source uses it:
  \<open>fn\<close> runs with the attempt number; when it returns, the promise resolves (\<open>None\<close>);
  when it bails, the promise rejects with that error and \<open>fn\<close> never runs again; when it
  throws, the error is recorded and, if a retry is left, \<^verbatim>\<open>onRetry\<close> is called with the error
  and the number of the attempt that failed, and \<open>fn\<close> runs again after the backoff delay;
  with no retry left the promise rejects with \<open>mainError\<close>. The first argument counts the
  retries left, \<open>errors\<close> are the errors recorded so far. The delays are not modelled.
\<close>

fun retry ::
  "nat \<Rightarrow> (nat \<Rightarrow> event list \<times> attempt_outcome) \<Rightarrow> (upload_error \<Rightarrow> nat \<Rightarrow> event list)
     \<Rightarrow> nat \<Rightarrow> upload_error list \<Rightarrow> event list \<times> upload_error option" where
  "retry 0 fn onRetry num errors =
     (case fn num of
        (out, Resolved) \<Rightarrow> (out, None)
      | (out, Bailed e) \<Rightarrow> (out, Some e)
      | (out, Thrown e) \<Rightarrow> (out, mainError (errors @ [e])))"
| "retry (Suc retries) fn onRetry num errors =
     (case fn num of
        (out, Resolved) \<Rightarrow> (out, None)
      | (out, Bailed e) \<Rightarrow> (out, Some e)
      | (out, Thrown e) \<Rightarrow>
          (case retry retries fn onRetry (Suc num) (errors @ [e]) of
             (out', r) \<Rightarrow> (out @ onRetry e num @ out', r)))"

text \<open>
  How \<^verbatim>\<open>uploadJUnitXML\<close> ends. The source returns \<^verbatim>\<open>undefined\<close> both at the end of the
  \<^verbatim>\<open>try\<close> block (\<open>Success\<close>) and from the \<^verbatim>\<open>catch\<close> block (\<open>Skip\<close>), and rethrows the
  error otherwise (\<open>Abort\<close>); the caller can only tell \<open>Abort\<close> from the other two.
\<close>

datatype outcome = Success | Skip upload_error | Abort upload_error

definition uploadJUnitXML :: "bool \<Rightarrow> api \<Rightarrow> payload \<Rightarrow> event list \<times> outcome" where
  "uploadJUnitXML dryRun api jUnitXML =
     (case retry 5 (upload_attempt dryRun api jUnitXML)
             (\<lambda>e attempt. [RetriedUpload (xmlPath jUnitXML) (message e) attempt]) 1 [] of
        (out, None) \<Rightarrow> (out, Success)
      | (out, Some error) \<Rightarrow>
          (out @ [FailedUpload (xmlPath jUnitXML) error],
           (case response error of
              Some status \<Rightarrow>
                if status \<notin> set errorCodesStopUpload then Skip error else Abort error
            | None \<Rightarrow> Abort error)))"

text \<open>The calls of \<^verbatim>\<open>api.uploadJUnitXML\<close> and the retry notices in what was written.\<close>

definition api_calls :: "event list \<Rightarrow> nat" where
  "api_calls out = length (filter (\<lambda>ev. case ev of ApiUpload _ \<Rightarrow> True | _ \<Rightarrow> False) out)"

definition retry_notices :: "event list \<Rightarrow> event list" where
  "retry_notices out = filter (\<lambda>ev. case ev of RetriedUpload _ _ _ \<Rightarrow> True | _ \<Rightarrow> False) out"

section \<open>The world outside the program\<close>

text \<open>
  A value the XML parser puts under a key of the object it returns: the text of an element
  (the empty string for an element with no content), a number (the parser turns numeric
  text into a number), or an object or array for an element with children.
\<close>

datatype jsval = JString string | JNumber int | JObject

definition js_truthy :: "jsval option \<Rightarrow> bool" where
  "js_truthy v =
     (case v of
        None \<Rightarrow> False
      | Some (JString s) \<Rightarrow> s \<noteq> []
      | Some (JNumber n) \<Rightarrow> n \<noteq> 0
      | Some JObject \<Rightarrow> True)"

text \<open>
  The functions the command calls and its source file does not define: of Node
  (\<^verbatim>\<open>path.extname\<close>, \<^verbatim>\<open>path.posix.normalize\<close>, \<^verbatim>\<open>fs.existsSync\<close>,
  \<^verbatim>\<open>fs.readFileSync\<close>, which throws where \<open>readFileSync\<close> is \<open>None\<close>), of the libraries
  glob (\<^verbatim>\<open>glob.sync\<close>) and fast-xml-parser (\<^verbatim>\<open>validate\<close>: \<open>None\<close> for \<^verbatim>\<open>true\<close>,
  \<open>Some msg\<close> for \<^verbatim>\<open>{err: {msg}}\<close>; \<^verbatim>\<open>parse\<close>: the keys of the object returned), of the
  repository's helpers (\<^verbatim>\<open>buildPath\<close>, \<^verbatim>\<open>parseTags\<close>, \<^verbatim>\<open>getCISpanTags\<close>,
  \<^verbatim>\<open>getGitMetadata\<close>), and the upload endpoint behind \<^verbatim>\<open>apiConstructor\<close>.

  The last field is the order in which the event loop lets the uploads in flight go on:
  at step \<open>t\<close> of a batch the upload at position \<open>schedule t mod n\<close> among the \<open>n\<close> uploads
  in flight makes the next step. It stands for the timing of the network and of the retry
  delays, which the program does not control.
\<close>

record world =
  extname :: "string \<Rightarrow> string"
  normalize :: "string \<Rightarrow> string"
  existsSync :: "string \<Rightarrow> bool"
  readFileSync :: "string \<Rightarrow> string option"
  glob_sync :: "string \<Rightarrow> string list"
  xml_validate :: "string \<Rightarrow> string option"
  xml_parse :: "string \<Rightarrow> (string \<rightharpoonup> jsval)"
  buildPath :: "string \<Rightarrow> string \<Rightarrow> string"
  parseTags :: "string list \<Rightarrow> tags"
  getCISpanTags :: tags
  getGitMetadata :: tags
  apiConstructor :: api
  schedule :: "nat \<Rightarrow> nat"

text \<open>\<^verbatim>\<open>process.env\<close>, the variables the command reads.\<close>

record process_env =
  DATADOG_API_KEY :: "string option"
  DD_API_KEY :: "string option"
  DD_ENV :: "string option"
  DD_TAGS :: "string option"
  DD_SERVICE :: "string option"

text \<open>The field \<^verbatim>\<open>config\<close> of the command and the fields the command line sets.\<close>

record config =
  apiKey :: "string option"
  env :: "string option"
  envVarTags :: "string option"

record command =
  basePaths :: "string list option"
  dryRun :: bool
  env :: "string option"
  maxConcurrency :: nat
  service :: "string option"
  tags :: "string list option"

datatype error = ApiKeyIsMissing | ReadFileError string | UploadError upload_error

text \<open>
  How \<^verbatim>\<open>execute\<close> ends: it returns the exit code 1, it throws, or it runs to its end
  (and returns \<^verbatim>\<open>undefined\<close>).
\<close>

datatype result = ReturnCode nat | Throws error | Completes

section \<open>Validation\<close>

definition validateXml :: "world \<Rightarrow> string \<Rightarrow> error + string option" where
  "validateXml w xmlFilePath =
     (case readFileSync w xmlFilePath of
        None \<Rightarrow> Inl (ReadFileError xmlFilePath)
      | Some xmlFileContentString \<Rightarrow>
          (case xml_validate w xmlFileContentString of
             Some msg \<Rightarrow> Inr (Some msg)
           | None \<Rightarrow>
               (let xmlFileJSON = xml_parse w xmlFileContentString
                in if \<not> js_truthy (xmlFileJSON ''testsuites'') \<and> \<not> js_truthy (xmlFileJSON ''testsuite'')
                   then Inr (Some ''Neither <testsuites> nor <testsuite> are the root tag.'')
                   else Inr None)))"

section \<open>Finding the report files\<close>

text \<open>
  The \<^verbatim>\<open>reduce\<close> over \<^verbatim>\<open>this.basePaths\<close>: one step (the function given to \<^verbatim>\<open>reduce\<close>)
  and the whole loop.
\<close>

definition jUnitXMLFiles_step :: "world \<Rightarrow> string list \<Rightarrow> string \<Rightarrow> string list" where
  "jUnitXMLFiles_step w acc basePath =
     (let isFile = (extname w basePath \<noteq> [])
      in if isFile then acc @ (if existsSync w basePath then [basePath] else [])
         else acc @ glob_sync w (buildPath w basePath ''*.xml''))"

definition jUnitXMLFiles :: "world \<Rightarrow> string list \<Rightarrow> string list" where
  "jUnitXMLFiles w bs = foldl (jUnitXMLFiles_step w) [] bs"

text \<open>
  \<^verbatim>\<open>[...new Set(xs)]\<close>: the elements of \<open>xs\<close> in the order of their first occurrence, each
  once.
\<close>

definition new_Set :: "'a list \<Rightarrow> 'a list" where
  "new_Set xs = foldl (\<lambda>seen x. if x \<in> set seen then seen else seen @ [x]) [] xs"

text \<open>
  The \<^verbatim>\<open>filter\<close> that gives \<^verbatim>\<open>validUniqueFiles\<close>: a file stays when the validation
  message is falsy (\<^verbatim>\<open>undefined\<close>, or the empty string); an invalid file is reported. When
  \<^verbatim>\<open>validateXml\<close> throws, the exception leaves the loop.
\<close>

fun validUniqueFiles :: "world \<Rightarrow> string list \<Rightarrow> event list \<times> (error + string list)" where
  "validUniqueFiles w [] = ([], Inr [])"
| "validUniqueFiles w (jUnitXMLFilePath # rest) =
     (case validateXml w jUnitXMLFilePath of
        Inl e \<Rightarrow> ([], Inl e)
      | Inr validationErrorMessage \<Rightarrow>
          (if truthy validationErrorMessage
           then (case validUniqueFiles w rest of
                   (out, r) \<Rightarrow>
                     (InvalidFile jUnitXMLFilePath
                        (case validationErrorMessage of Some msg \<Rightarrow> msg | None \<Rightarrow> []) # out, r))
           else (case validUniqueFiles w rest of
                   (out, Inl e) \<Rightarrow> (out, Inl e)
                 | (out, Inr files) \<Rightarrow> (out, Inr (jUnitXMLFilePath # files)))))"

section \<open>Tags\<close>

text \<open>
  \<^verbatim>\<open>s.split(',')\<close>: the pieces of \<open>s\<close> between the commas (one piece, \<open>s\<close> itself, when
  there is no comma).
\<close>

fun split_comma :: "string \<Rightarrow> string list" where
  "split_comma [] = [[]]"
| "split_comma (c # cs) =
     (if c = CHR '','' then [] # split_comma cs
      else (case split_comma cs of
              piece # pieces \<Rightarrow> (c # piece) # pieces
            | [] \<Rightarrow> [[c]]))"

text \<open>
  The object spread that gives \<^verbatim>\<open>spanTags\<close>: a later source overwrites the keys of the
  earlier ones (\<open>m ++ n\<close> takes \<open>n\<close>'s value where \<open>n\<close> has the key). The last argument is
  \<^verbatim>\<open>this.config.env\<close>.
\<close>

definition mergeSpanTags :: "tags \<Rightarrow> tags \<Rightarrow> tags \<Rightarrow> tags \<Rightarrow> string option \<Rightarrow> tags" where
  "mergeSpanTags gitSpanTags ciSpanTags cliTags envVarTagsMap config_env =
     gitSpanTags ++ ciSpanTags ++ cliTags ++ envVarTagsMap ++
       (if truthy config_env
        then (case config_env of Some e \<Rightarrow> [''env'' \<mapsto> e] | None \<Rightarrow> Map.empty)
        else Map.empty)"

definition getMatchingJUnitXMLFiles ::
  "world \<Rightarrow> config \<Rightarrow> command \<Rightarrow> event list \<times> (error + payload list)" where
  "getMatchingJUnitXMLFiles w cfg this =
     (let files = jUnitXMLFiles w (case basePaths this of Some bs \<Rightarrow> bs | None \<Rightarrow> []);
          ciSpanTags = getCISpanTags w;
          gitSpanTags = getGitMetadata w;
          envVarTagsMap =
            (if truthy (config.envVarTags cfg)
             then (case config.envVarTags cfg of
                     Some s \<Rightarrow> parseTags w (split_comma s) | None \<Rightarrow> Map.empty)
             else Map.empty);
          cliTags = (case tags this of Some ts \<Rightarrow> parseTags w ts | None \<Rightarrow> Map.empty);
          merged = mergeSpanTags gitSpanTags ciSpanTags cliTags envVarTagsMap (config.env cfg)
      in (case validUniqueFiles w (new_Set files) of
            (out, Inl e) \<Rightarrow> (out, Inl e)
          | (out, Inr valid) \<Rightarrow>
              (out,
               Inr (map (\<lambda>jUnitXMLFilePath.
                           \<lparr>payload.service = (case command.service this of Some s \<Rightarrow> s | None \<Rightarrow> []),
                            spanTags = merged,
                            xmlPath = jUnitXMLFilePath\<rparr>) valid))))"

section \<open>The command\<close>

text \<open>The initial value of the field \<^verbatim>\<open>config\<close>; \<open>js_or a b\<close> is \<^verbatim>\<open>a || b\<close>.\<close>

definition js_or :: "string option \<Rightarrow> string option \<Rightarrow> string option" where
  "js_or a b = (if truthy a then a else b)"

definition initial_config :: "process_env \<Rightarrow> config" where
  "initial_config penv =
     \<lparr>apiKey = js_or (DATADOG_API_KEY penv) (DD_API_KEY penv),
      config.env = DD_ENV penv,
      envVarTags = DD_TAGS penv\<rparr>"

text \<open>
  Lines 146 to 148 of \<^verbatim>\<open>execute\<close>: \<^verbatim>\<open>this.config.env\<close> after
  \<^verbatim>\<open>if (!this.config.env) this.config.env = this.env\<close>.
\<close>

definition resolve_env :: "config \<Rightarrow> command \<Rightarrow> config" where
  "resolve_env cfg this =
     (if \<not> truthy (config.env cfg) then cfg\<lparr>config.env := command.env this\<rparr> else cfg)"

definition getApiHelper :: "world \<Rightarrow> config \<Rightarrow> event list \<times> (error + api)" where
  "getApiHelper w cfg =
     (if \<not> truthy (apiKey cfg) then ([ApiKeyMissingNotice], Inl ApiKeyIsMissing)
      else ([], Inr (apiConstructor w)))"

text \<open>
  \<^verbatim>\<open>asyncPool(poolLimit, array, iteratorFn)\<close> of the library tiny-async-pool, as a machine
  that makes one step at a time. Its state is the payloads not yet started (\<open>pending\<close>),
  the uploads in flight (\<open>running\<close>: for each the lines it has still to write and the way
  it will end) and what has been written (\<open>out\<close>).

  \<^item> The loop of the pool starts the next payload as long as fewer than \<open>poolLimit\<close> uploads
    are in flight (with \<open>poolLimit = 0\<close> the library still starts one upload at a time); it
    does so before any upload goes on, and again as soon as an upload has returned.
  \<^item> Otherwise the upload in flight that the schedule picks makes a step: it writes its
    next line, or, with nothing left to write, it ends. An upload that returns leaves the
    pool, whichever it is. With the first upload that throws, the promise of the pool is
    rejected with that error: no further payload is started, and what the other uploads in
    flight write afterwards is not part of the result.
  \<^item> When nothing is pending and nothing is in flight, the promise is fulfilled.

  The uploads do not depend on each other, so what an upload writes and how it ends is
  \<open>iteratorFn p\<close>, whatever runs beside it; the schedule decides the interleaving.
\<close>

function pool_loop ::
  "(nat \<Rightarrow> nat) \<Rightarrow> nat \<Rightarrow> (payload \<Rightarrow> event list \<times> outcome) \<Rightarrow> nat \<Rightarrow> payload list
     \<Rightarrow> (event list \<times> outcome) list \<Rightarrow> event list \<Rightarrow> event list \<times> upload_error option" where
  "pool_loop sched poolLimit iteratorFn t pending running out =
     (if pending \<noteq> [] \<and> length running < max 1 poolLimit
      then pool_loop sched poolLimit iteratorFn t (tl pending)
             (running @ [iteratorFn (hd pending)]) out
      else if running = [] then (out, None)
      else
        (let i = sched t mod length running
         in (case running ! i of
               (ev # evs, r) \<Rightarrow>
                 pool_loop sched poolLimit iteratorFn (Suc t) pending
                   (running[i := (evs, r)]) (out @ [ev])
             | ([], Abort e) \<Rightarrow> (out, Some e)
             | ([], _) \<Rightarrow>
                 pool_loop sched poolLimit iteratorFn (Suc t) pending
                   (take i running @ drop (Suc i) running) out)))"
  by pat_completeness auto
termination
proof (relation "measure (\<lambda>(sched, poolLimit, iteratorFn, t, pending, running, out).
          sum_list (map (\<lambda>p. length (fst (iteratorFn p)) + 2) pending) +
          sum_list (map (\<lambda>task. length (fst task) + 1) running))", goal_cases)
  case 1
  show ?case by simp
next
  case (2 sched poolLimit iteratorFn t pending running out)
  then show ?case by (cases pending) simp_all
next
  case (3 sched poolLimit iteratorFn t pending running out i evs r)
  then have "i < length running" by simp
  then have "running = take i running @ running ! i # drop (Suc i) running"
    by (rule id_take_nth_drop)
  then have "sum_list (map (\<lambda>task. length (fst task) + 1) running) =
      sum_list (map (\<lambda>task. length (fst task) + 1) (take i running)) +
      (length (fst (running ! i)) + 1) +
      sum_list (map (\<lambda>task. length (fst task) + 1) (drop (Suc i) running))"
    by (metis (no_types, lifting) add.assoc list.simps(9) map_append sum_list.Cons sum_list.append)
  with 3 show ?case by simp
next
  case (4 sched poolLimit iteratorFn t pending running out i evs r e)
  then have "i < length running" by simp
  then have "running = take i running @ running ! i # drop (Suc i) running"
    by (rule id_take_nth_drop)
  then have "sum_list (map (\<lambda>task. length (fst task) + 1) running) =
      sum_list (map (\<lambda>task. length (fst task) + 1) (take i running)) +
      (length (fst (running ! i)) + 1) +
      sum_list (map (\<lambda>task. length (fst task) + 1) (drop (Suc i) running))"
    by (metis (no_types, lifting) add.assoc list.simps(9) map_append sum_list.Cons sum_list.append)
  with 4 show ?case by simp
next
  case (5 sched poolLimit iteratorFn t pending running out i evs r ev evs')
  then have i: "i < length running" by simp
  then have "running = take i running @ running ! i # drop (Suc i) running"
    by (rule id_take_nth_drop)
  then have "sum_list (map (\<lambda>task. length (fst task) + 1) running) =
      sum_list (map (\<lambda>task. length (fst task) + 1) (take i running)) +
      (length (fst (running ! i)) + 1) +
      sum_list (map (\<lambda>task. length (fst task) + 1) (drop (Suc i) running))"
    by (metis (no_types, lifting) add.assoc list.simps(9) map_append sum_list.Cons sum_list.append)
  moreover have "running[i := (evs', r)] = take i running @ (evs', r) # drop (Suc i) running"
    using i by (rule upd_conv_take_nth_drop)
  moreover have "fst (running ! i) = ev # evs'"
    using 5 by (metis fst_conv)
  ultimately show ?case using 5 by simp
qed

declare pool_loop.simps [simp del]

definition asyncPool ::
  "(nat \<Rightarrow> nat) \<Rightarrow> nat \<Rightarrow> payload list \<Rightarrow> (payload \<Rightarrow> event list \<times> outcome)
     \<Rightarrow> event list \<times> upload_error option" where
  "asyncPool sched poolLimit array iteratorFn = pool_loop sched poolLimit iteratorFn 0 array [] []"

text \<open>
  Lines 156 to 164 of \<^verbatim>\<open>execute\<close>: the payloads are found and uploaded through the pool,
  and the closing line reports \<^verbatim>\<open>payloads.length\<close>. The duration in that line is wall-clock
  time and is left out. When the pool is rejected, \<^verbatim>\<open>execute\<close> throws that error; what has
  been written until then is the output.
\<close>

definition execute_batch :: "world \<Rightarrow> config \<Rightarrow> command \<Rightarrow> api \<Rightarrow> event list \<times> result" where
  "execute_batch w cfg this api =
     (case getMatchingJUnitXMLFiles w cfg this of
        (out1, Inl e) \<Rightarrow> (out1, Throws e)
      | (out1, Inr payloads) \<Rightarrow>
          (case asyncPool (schedule w) (maxConcurrency this) payloads
                  (uploadJUnitXML (dryRun this) api) of
             (out2, Some e) \<Rightarrow> (out1 @ out2, Throws (UploadError e))
           | (out2, None) \<Rightarrow>
               (out1 @ out2 @ [SuccessfulCommand (length payloads)], Completes)))"

definition execute :: "world \<Rightarrow> process_env \<Rightarrow> command \<Rightarrow> event list \<times> result" where
  "execute w penv this0 =
     (let this1 =
            (if \<not> truthy (command.service this0)
             then this0\<lparr>command.service := DD_SERVICE penv\<rparr> else this0)
      in if \<not> truthy (command.service this1) then ([MissingService], ReturnCode 1)
         else if (case basePaths this1 of None \<Rightarrow> True | Some bs \<Rightarrow> length bs = 0)
         then ([MissingBasePath], ReturnCode 1)
         else
           (let cfg = resolve_env (initial_config penv) this1
            in (case getApiHelper w cfg of
                  (out0, Inl e) \<Rightarrow> (out0, Throws e)
                | (out0, Inr api) \<Rightarrow>
                    (let this2 = this1\<lparr>basePaths := map_option (map (normalize w)) (basePaths this1)\<rparr>;
                         info = CommandInfo (case basePaths this2 of Some bs \<Rightarrow> bs | None \<Rightarrow> [])
                                  (case command.service this2 of Some s \<Rightarrow> s | None \<Rightarrow> [])
                                  (maxConcurrency this2) (dryRun this2)
                     in (case execute_batch w cfg this2 api of
                           (out, r) \<Rightarrow> (out0 @ [info] @ out, r))))))"

section \<open>Observations on a batch\<close>

text \<open>
  The payloads of a list whose upload ends at the end of the \<^verbatim>\<open>try\<close> block, and those
  whose upload ends in the \<^verbatim>\<open>catch\<close> block without rethrowing.
\<close>

definition succeeded :: "bool \<Rightarrow> api \<Rightarrow> payload list \<Rightarrow> payload list" where
  "succeeded dry api ps =
     filter (\<lambda>p. case snd (uploadJUnitXML dry api p) of Success \<Rightarrow> True | _ \<Rightarrow> False) ps"

definition upload_skipped :: "bool \<Rightarrow> api \<Rightarrow> payload list \<Rightarrow> payload list" where
  "upload_skipped dry api ps =
     filter (\<lambda>p. case snd (uploadJUnitXML dry api p) of Skip _ \<Rightarrow> True | _ \<Rightarrow> False) ps"

text \<open>
  A file passes the filter of \<^verbatim>\<open>getMatchingJUnitXMLFiles\<close> when \<^verbatim>\<open>validateXml\<close> returns a
  falsy message for it.
\<close>

definition passes_validation :: "world \<Rightarrow> string \<Rightarrow> bool" where
  "passes_validation w f = (case validateXml w f of Inr m \<Rightarrow> \<not> truthy m | Inl _ \<Rightarrow> False)"

text \<open>The candidate files one base path contributes.\<close>

definition candidates_of :: "world \<Rightarrow> string \<Rightarrow> string list" where
  "candidates_of w basePath = jUnitXMLFiles_step w [] basePath"

section \<open>Sample inputs\<close>

text \<open>
  Concrete inputs on which the theorems below are instantiated: errors as the endpoint
  gives them, an endpoint that answers the calls for a payload with the results of a list
  in turn (and accepts every further call), and a payload.
\<close>

definition http_error :: "int \<Rightarrow> upload_error" where
  "http_error status = \<lparr>response = Some status, message = ''Request failed''\<rparr>"

definition network_error :: upload_error where
  "network_error = \<lparr>response = None, message = ''connect ECONNREFUSED''\<rparr>"

definition api_script :: "api_result list \<Rightarrow> api" where
  "api_script rs = (\<lambda>p n. if 1 \<le> n \<and> n \<le> length rs then rs ! (n - 1) else Uploaded)"

definition api_always :: "api_result \<Rightarrow> api" where
  "api_always r = (\<lambda>p n. r)"

definition sample_payload :: payload where
  "sample_payload = \<lparr>payload.service = ''svc'', spanTags = Map.empty, xmlPath = ''reports/a.xml''\<rparr>"

text \<open>
  A world with a directory \<^verbatim>\<open>reports\<close> that holds two files, \<^verbatim>\<open>a.xml\<close> (a report) and
  \<^verbatim>\<open>b.xml\<close> (well-formed, but not a report), and no file \<^verbatim>\<open>missing.xml\<close>; a command
  line that names the directory, the first file once more and the missing file.
\<close>

definition sample_world :: "api \<Rightarrow> world" where
  "sample_world a =
     \<lparr>extname = (\<lambda>p. if p \<in> {''reports/a.xml'', ''reports/b.xml'', ''missing.xml''}
                       then ''.xml'' else []),
      normalize = (\<lambda>p. p),
      existsSync = (\<lambda>p. p \<in> {''reports'', ''reports/a.xml'', ''reports/b.xml''}),
      readFileSync =
        (\<lambda>p. if p = ''reports/a.xml'' then Some ''<testsuites><testsuite>x</testsuite></testsuites>''
             else if p = ''reports/b.xml'' then Some ''<html></html>''
             else None),
      glob_sync =
        (\<lambda>pattern. if pattern = ''reports/*.xml'' then [''reports/a.xml'', ''reports/b.xml''] else []),
      xml_validate = (\<lambda>content. None),
      xml_parse =
        (\<lambda>content. if content = ''<testsuites><testsuite>x</testsuite></testsuites>''
                   then [''testsuites'' \<mapsto> JObject]
                   else if content = ''<html></html>'' then [''html'' \<mapsto> JString []]
                   else Map.empty),
      buildPath = (\<lambda>dir base. dir @ ''/'' @ base),
      parseTags = (\<lambda>ts. Map.empty),
      getCISpanTags = Map.empty,
      getGitMetadata = Map.empty,
      apiConstructor = a,
      schedule = (\<lambda>t. 0)\<rparr>"

definition sample_config :: config where
  "sample_config = \<lparr>apiKey = Some ''key'', config.env = None, envVarTags = None\<rparr>"

definition sample_command :: command where
  "sample_command =
     \<lparr>basePaths = Some [''reports'', ''reports/a.xml'', ''missing.xml''],
      dryRun = False,
      command.env = None,
      maxConcurrency = 20,
      command.service = Some ''svc'',
      tags = None\<rparr>"

text \<open>
  A world whose only file, \<^verbatim>\<open>reports/empty.xml\<close>, is a well-formed report with no test
  suite in it. For an element without content the parser gives the empty string, so the
  object it returns is \<^verbatim>\<open>{testsuites: ''}\<close>.
\<close>

definition empty_report_world :: world where
  "empty_report_world =
     \<lparr>extname = (\<lambda>p. if p = ''reports/empty.xml'' then ''.xml'' else []),
      normalize = (\<lambda>p. p),
      existsSync = (\<lambda>p. p = ''reports/empty.xml''),
      readFileSync =
        (\<lambda>p. if p = ''reports/empty.xml'' then Some ''<testsuites></testsuites>'' else None),
      glob_sync = (\<lambda>pattern. []),
      xml_validate = (\<lambda>content. None),
      xml_parse =
        (\<lambda>content. if content = ''<testsuites></testsuites>''
                   then [''testsuites'' \<mapsto> JString []] else Map.empty),
      buildPath = (\<lambda>dir base. dir @ ''/'' @ base),
      parseTags = (\<lambda>ts. Map.empty),
      getCISpanTags = Map.empty,
      getGitMetadata = Map.empty,
      apiConstructor = api_always Uploaded,
      schedule = (\<lambda>t. 0)\<rparr>"

text \<open>Tags and an environment for the precedence of the tag sources.\<close>

definition sample_gitSpanTags :: tags where
  "sample_gitSpanTags = [''git.branch'' \<mapsto> ''main'', ''team'' \<mapsto> ''from-git'']"

definition sample_ciSpanTags :: tags where
  "sample_ciSpanTags = [''ci.job'' \<mapsto> ''42'', ''team'' \<mapsto> ''from-ci'']"

definition sample_cliTags :: tags where
  "sample_cliTags = [''team'' \<mapsto> ''from-cli'', ''env'' \<mapsto> ''staging'']"

definition sample_envVarTags :: tags where
  "sample_envVarTags = [''team'' \<mapsto> ''from-dd-tags'']"

definition sample_process_env :: process_env where
  "sample_process_env =
     \<lparr>DATADOG_API_KEY = Some ''key'',
      DD_API_KEY = None,
      DD_ENV = Some ''prod'',
      DD_TAGS = None,
      DD_SERVICE = None\<rparr>"

text \<open>
  A world with two reports, \<^verbatim>\<open>reports/a.xml\<close> and \<^verbatim>\<open>reports/c.xml\<close>, in which the uploads
  in flight take turns; the payload of the second report; and an endpoint that answers
  for the payload of one file as one endpoint does and for every other payload as another.
\<close>

definition two_reports_world :: "api \<Rightarrow> world" where
  "two_reports_world a =
     (sample_world a)
       \<lparr>extname := (\<lambda>p. if p \<in> {''reports/a.xml'', ''reports/c.xml''} then ''.xml'' else []),
        existsSync := (\<lambda>p. p \<in> {''reports'', ''reports/a.xml'', ''reports/c.xml''}),
        readFileSync :=
          (\<lambda>p. if p \<in> {''reports/a.xml'', ''reports/c.xml''}
               then Some ''<testsuites><testsuite>x</testsuite></testsuites>'' else None),
        glob_sync :=
          (\<lambda>pattern. if pattern = ''reports/*.xml'' then [''reports/a.xml'', ''reports/c.xml''] else []),
        schedule := (\<lambda>t. t)\<rparr>"

definition two_reports_command :: command where
  "two_reports_command = sample_command\<lparr>basePaths := Some [''reports'']\<rparr>"

definition second_payload :: payload where
  "second_payload = sample_payload\<lparr>xmlPath := ''reports/c.xml''\<rparr>"

definition api_for :: "string \<Rightarrow> api \<Rightarrow> api \<Rightarrow> api" where
  "api_for path a other = (\<lambda>p n. if xmlPath p = path then a p n else other p n)"

text \<open>
  The sample world with tags from all the sources: the git and CI tags above, the option
  \<^verbatim>\<open>--tags team:from-cli --tags env:staging\<close>, the variable
  \<^verbatim>\<open>DD_TAGS=team:from-dd-tags\<close> and the explicit env \<^verbatim>\<open>prod\<close>. The helper \<^verbatim>\<open>parseTags\<close> is
  given by what it returns for these two lists.
\<close>

definition tagged_world :: world where
  "tagged_world =
     (sample_world (api_always Uploaded))
       \<lparr>parseTags :=
          (\<lambda>ts. if ts = [''team:from-cli'', ''env:staging''] then sample_cliTags
                else if ts = [''team:from-dd-tags''] then sample_envVarTags
                else Map.empty),
        getCISpanTags := sample_ciSpanTags,
        getGitMetadata := sample_gitSpanTags\<rparr>"

definition tagged_config :: config where
  "tagged_config =
     \<lparr>apiKey = Some ''key'', config.env = Some ''prod'', envVarTags = Some ''team:from-dd-tags''\<rparr>"

definition tagged_command :: command where
  "tagged_command = sample_command\<lparr>tags := Some [''team:from-cli'', ''env:staging'']\<rparr>"


section \<open>Properties of the retry loop and the pool\<close>

lemma mainError_loop_Some: "\<exists>e. mainError_loop errs c (Some e0) k = Some e"
  by (induction errs arbitrary: c e0 k) (auto simp: Let_def)

lemma mainError_loop_mem:
  "mainError_loop errs c m k = Some e \<Longrightarrow> e \<in> set errs \<or> m = Some e"
  by (induction errs arbitrary: c m k) (auto simp: Let_def split: if_splits)

lemma mainError_mem: "errs \<noteq> [] \<Longrightarrow> \<exists>e \<in> set errs. mainError errs = Some e"
proof (cases errs)
  case Nil
  assume "errs \<noteq> []"
  with Nil show ?thesis by simp
next
  case (Cons x xs)
  obtain e where e: "mainError_loop xs ((\<lambda>_. 0)(message x := Suc 0)) (Some x) (Suc 0) = Some e"
    using mainError_loop_Some by blast
  then have "e \<in> set xs \<or> e = x"
    using mainError_loop_mem by fastforce
  with e Cons show ?thesis by (auto simp: mainError_def Let_def)
qed

lemma retry_thrown_prefix:
  assumes "\<And>n. num \<le> n \<Longrightarrow> n < num + j \<Longrightarrow> fn n = (ou n, Thrown (e n))" and "j \<le> r"
  shows "retry r fn onRetry num errs =
           (case retry (r - j) fn onRetry (num + j) (errs @ map e [num..<num + j]) of
              (out', res) \<Rightarrow> (concat (map (\<lambda>n. ou n @ onRetry (e n) n) [num..<num + j]) @ out', res))"
  using assms
proof (induction j arbitrary: r num errs)
  case 0
  then show ?case by simp
next
  case (Suc j)
  then obtain r' where r: "r = Suc r'" by (cases r) auto
  have first: "fn num = (ou num, Thrown (e num))" using Suc.prems(1)[of num] by simp
  have IH: "retry r' fn onRetry (Suc num) (errs @ [e num]) =
           (case retry (r' - j) fn onRetry (Suc num + j) ((errs @ [e num]) @ map e [Suc num..<Suc num + j]) of
              (out', res) \<Rightarrow> (concat (map (\<lambda>n. ou n @ onRetry (e n) n) [Suc num..<Suc num + j]) @ out', res))"
    using Suc.prems r by (intro Suc.IH) auto
  have up: "[num..<num + Suc j] = num # [Suc num..<Suc num + j]"
    by (simp add: upt_rec)
  show ?case
    unfolding r up using first IH by (simp split: prod.splits)
qed


lemma api_calls_append: "api_calls (xs @ ys) = api_calls xs + api_calls ys"
  by (simp add: api_calls_def)

lemma retry_notices_append: "retry_notices (xs @ ys) = retry_notices xs @ retry_notices ys"
  by (simp add: retry_notices_def)

lemma api_calls_rounds:
  "api_calls (concat (map (\<lambda>n. [ApiUpload x, RetriedUpload x (m n) n]) ns)) = length ns"
  by (induction ns) (simp_all add: api_calls_def)

lemma retry_notices_rounds:
  "retry_notices (concat (map (\<lambda>n. [ApiUpload x, RetriedUpload x (m n) n]) ns)) =
     map (\<lambda>n. RetriedUpload x (m n) n) ns"
  by (induction ns) (simp_all add: retry_notices_def)

lemma upload_attempt_thrown:
  "api p n = Rejected e \<Longrightarrow> response e = Some s \<Longrightarrow> s \<notin> set errorCodesNoRetry \<Longrightarrow>
   upload_attempt False api p n = ([ApiUpload (xmlPath p)], Thrown e)"
  by (simp add: upload_attempt_def)


lemma upload_attempt_bailed_no_response:
  "api p n = Rejected e \<Longrightarrow> response e = None \<Longrightarrow>
   upload_attempt False api p n = ([ApiUpload (xmlPath p)], Bailed e)"
  by (simp add: upload_attempt_def)

lemma retry_bailed:
  "fn num = (out, Bailed e) \<Longrightarrow> retry r fn onRetry num errs = (out, Some e)"
  by (cases r) simp_all

lemma retry_resolved:
  "fn num = (out, Resolved) \<Longrightarrow> retry r fn onRetry num errs = (out, None)"
  by (cases r) simp_all

text \<open>
  The run of \<^verbatim>\<open>retry\<close> in \<^verbatim>\<open>uploadJUnitXML\<close> when the attempts before the \<open>k\<close>-th all
  failed with a status that is retried: \<open>k - 1\<close> rounds of a call and a retry notice, then
  what the \<open>k\<close>-th attempt and its successors do.
\<close>

lemma retry_upload_prefix:
  assumes prior: "\<forall>n. 1 \<le> n \<and> n < k \<longrightarrow>
            api p n = Rejected (e n) \<and> (\<exists>s. response (e n) = Some s \<and> s \<notin> set errorCodesNoRetry)"
    and k: "1 \<le> k" "k \<le> 6"
  shows "retry 5 (upload_attempt False api p)
             (\<lambda>e attempt. [RetriedUpload (xmlPath p) (message e) attempt]) 1 [] =
           (case retry (6 - k) (upload_attempt False api p)
                   (\<lambda>e attempt. [RetriedUpload (xmlPath p) (message e) attempt]) k (map e [1..<k]) of
              (out', res) \<Rightarrow>
                (concat (map (\<lambda>n. [ApiUpload (xmlPath p), RetriedUpload (xmlPath p) (message (e n)) n])
                           [1..<k]) @ out', res))"
proof -
  let ?onR = "\<lambda>(e :: upload_error) attempt. [RetriedUpload (xmlPath p) (message e) attempt]"
  have thrown: "upload_attempt False api p n = ([ApiUpload (xmlPath p)], Thrown (e n))"
    if "1 \<le> n" "n < 1 + (k - 1)" for n
  proof -
    from that k prior obtain s where
      "api p n = Rejected (e n)" "response (e n) = Some s" "s \<notin> set errorCodesNoRetry" by auto
    then show ?thesis by (simp add: upload_attempt_thrown)
  qed
  have "retry 5 (upload_attempt False api p) ?onR 1 [] =
          (case retry (5 - (k - 1)) (upload_attempt False api p) ?onR (1 + (k - 1))
                  ([] @ map e [1..<1 + (k - 1)]) of
             (out', res) \<Rightarrow>
               (concat (map (\<lambda>n. [ApiUpload (xmlPath p)] @ ?onR (e n) n) [1..<1 + (k - 1)]) @ out', res))"
    using k by (intro retry_thrown_prefix thrown) auto
  moreover have "5 - (k - 1) = 6 - k" "1 + (k - 1) = k" using k by auto
  ultimately show ?thesis by simp
qed

lemma uploadJUnitXML_bail:
  assumes prior: "\<forall>n. 1 \<le> n \<and> n < k \<longrightarrow>
            api p n = Rejected (e n) \<and> (\<exists>s. response (e n) = Some s \<and> s \<notin> set errorCodesNoRetry)"
    and k: "1 \<le> k" "k \<le> 6"
    and bail: "upload_attempt False api p k = ([ApiUpload (xmlPath p)], Bailed err)"
  shows "uploadJUnitXML False api p =
           (concat (map (\<lambda>n. [ApiUpload (xmlPath p), RetriedUpload (xmlPath p) (message (e n)) n])
                      [1..<k]) @ [ApiUpload (xmlPath p), FailedUpload (xmlPath p) err],
            (case response err of
               Some status \<Rightarrow> if status \<notin> set errorCodesStopUpload then Skip err else Abort err
             | None \<Rightarrow> Abort err))"
proof -
  note pre = retry_upload_prefix[where api=api and p=p and e=e and k=k, OF prior k]
  have stop: "retry r (upload_attempt False api p) onR k errs = ([ApiUpload (xmlPath p)], Some err)"
    for r onR errs
    using bail by (rule retry_bailed)
  show ?thesis
    unfolding uploadJUnitXML_def by (subst pre) (simp add: stop)
qed

lemma uploadJUnitXML_dryRun:
  "uploadJUnitXML True api p = ([DryRunUpload (xmlPath p)], Success)"
  by (simp add: uploadJUnitXML_def upload_attempt_def numeral_eq_Suc)

subsection \<open>The pool\<close>

text \<open>Lists with one position taken out or replaced.\<close>

lemma set_nth_take_drop:
  "i < length xs \<Longrightarrow> set xs = insert (xs ! i) (set (take i xs @ drop (Suc i) xs))"
  using id_take_nth_drop[of i xs] by (metis Un_insert_right list.simps(15) set_append)

lemma set_update_take_drop:
  "i < length xs \<Longrightarrow> set (xs[i := y]) = insert y (set (take i xs @ drop (Suc i) xs))"
  by (simp add: upd_conv_take_nth_drop)

lemma mset_concat_nth_take_drop:
  "i < length xs \<Longrightarrow>
   mset (concat (map g xs)) = mset (g (xs ! i)) + mset (concat (map g (take i xs @ drop (Suc i) xs)))"
proof -
  assume "i < length xs"
  then have "xs = take i xs @ xs ! i # drop (Suc i) xs" by (rule id_take_nth_drop)
  then have "mset (concat (map g xs)) =
      mset (concat (map g (take i xs @ xs ! i # drop (Suc i) xs)))" by simp
  then show ?thesis by simp
qed

lemma mset_concat_update_take_drop:
  "i < length xs \<Longrightarrow>
   mset (concat (map g (xs[i := y]))) = mset (g y) + mset (concat (map g (take i xs @ drop (Suc i) xs)))"
  by (simp add: upd_conv_take_nth_drop)

text \<open>The steps of the pool, one equation for each.\<close>

lemma pool_loop_start:
  "length running < max 1 lim \<Longrightarrow>
   pool_loop sched lim f t (p # ps) running out = pool_loop sched lim f t ps (running @ [f p]) out"
  by (subst pool_loop.simps) simp

lemma pool_loop_done: "pool_loop sched lim f t [] [] out = (out, None)"
  by (subst pool_loop.simps) simp

lemma pool_loop_emit:
  "pending = [] \<or> \<not> length running < max 1 lim \<Longrightarrow> running \<noteq> [] \<Longrightarrow>
   running ! (sched t mod length running) = (ev # evs, r) \<Longrightarrow>
   pool_loop sched lim f t pending running out =
     pool_loop sched lim f (Suc t) pending (running[sched t mod length running := (evs, r)]) (out @ [ev])"
  by (subst pool_loop.simps) (auto simp: Let_def)

lemma pool_loop_reject:
  "pending = [] \<or> \<not> length running < max 1 lim \<Longrightarrow> running \<noteq> [] \<Longrightarrow>
   running ! (sched t mod length running) = ([], Abort e) \<Longrightarrow>
   pool_loop sched lim f t pending running out = (out, Some e)"
  by (subst pool_loop.simps) (auto simp: Let_def)

lemma pool_loop_fulfil:
  "pending = [] \<or> \<not> length running < max 1 lim \<Longrightarrow> running \<noteq> [] \<Longrightarrow>
   running ! (sched t mod length running) = ([], r) \<Longrightarrow> \<forall>e. r \<noteq> Abort e \<Longrightarrow>
   pool_loop sched lim f t pending running out =
     pool_loop sched lim f (Suc t) pending
       (take (sched t mod length running) running @ drop (Suc (sched t mod length running)) running) out"
  by (subst pool_loop.simps) (cases r; auto simp: Let_def)

text \<open>Induction over the run of the pool, one case for each step.\<close>

lemma pool_loop_induct [case_names start finished emit reject fulfil]:
  fixes f :: "payload \<Rightarrow> event list \<times> outcome"
    and P :: "nat \<Rightarrow> payload list \<Rightarrow> (event list \<times> outcome) list \<Rightarrow> event list \<Rightarrow> bool"
  assumes start: "\<And>t p ps running out.
      length running < max 1 lim \<Longrightarrow> P t ps (running @ [f p]) out \<Longrightarrow> P t (p # ps) running out"
    and finished: "\<And>t out. P t [] [] out"
    and emit: "\<And>t pending running out i ev evs r.
      pending = [] \<or> \<not> length running < max 1 lim \<Longrightarrow> i = sched t mod length running \<Longrightarrow>
      i < length running \<Longrightarrow> running ! i = (ev # evs, r) \<Longrightarrow>
      P (Suc t) pending (running[i := (evs, r)]) (out @ [ev]) \<Longrightarrow> P t pending running out"
    and reject: "\<And>t pending running out i e.
      pending = [] \<or> \<not> length running < max 1 lim \<Longrightarrow> i = sched t mod length running \<Longrightarrow>
      i < length running \<Longrightarrow> running ! i = ([], Abort e) \<Longrightarrow> P t pending running out"
    and fulfil: "\<And>t pending running out i r.
      pending = [] \<or> \<not> length running < max 1 lim \<Longrightarrow> i = sched t mod length running \<Longrightarrow>
      i < length running \<Longrightarrow> running ! i = ([], r) \<Longrightarrow> \<forall>e. r \<noteq> Abort e \<Longrightarrow>
      P (Suc t) pending (take i running @ drop (Suc i) running) out \<Longrightarrow> P t pending running out"
  shows "P t pending running out"
  using assms
proof (induction sched lim f t pending running out rule: pool_loop.induct)
  case (1 sched lim f t pending running out)
  note start = "1.prems"(1) and finished = "1.prems"(2) and emit = "1.prems"(3)
    and reject = "1.prems"(4) and fulfil = "1.prems"(5)
  show ?case
  proof (cases "pending \<noteq> [] \<and> length running < max 1 lim")
    case True
    then obtain p ps where p: "pending = p # ps" by (cases pending) auto
    have "P t (tl pending) (running @ [f (hd pending)]) out"
      using True "1.prems" by (rule "1.IH"(1))
    with True p start show ?thesis by simp
  next
    case blocked: False
    then have blocked': "pending = [] \<or> \<not> length running < max 1 lim" by simp
    show ?thesis
    proof (cases "running = []")
      case True
      with blocked have "pending = []" by auto
      with True finished show ?thesis by simp
    next
      case False
      let ?i = "sched t mod length running"
      have i: "?i < length running" using False by simp
      obtain evs r where task: "running ! ?i = (evs, r)" by (cases "running ! ?i")
      show ?thesis
      proof (cases evs)
        case (Cons ev evs')
        have "P (Suc t) pending (running[?i := (evs', r)]) (out @ [ev])"
          using blocked False refl task[symmetric] Cons "1.prems" by (rule "1.IH"(4))
        with blocked' i task Cons show ?thesis by (intro emit[of pending running ?i t ev evs' r out]) auto
      next
        case Nil
        show ?thesis
        proof (cases r)
          case (Abort e)
          with blocked' i task Nil show ?thesis by (intro reject[of pending running ?i t e out]) auto
        next
          case Success
          have "P (Suc t) pending (take ?i running @ drop (Suc ?i) running) out"
            using blocked False refl task[symmetric] Nil Success "1.prems" by (rule "1.IH"(2))
          with blocked' i task Nil Success show ?thesis
            by (intro fulfil[of pending running ?i t r out]) auto
        next
          case (Skip x)
          have "P (Suc t) pending (take ?i running @ drop (Suc ?i) running) out"
            using blocked False refl task[symmetric] Nil Skip "1.prems" by (rule "1.IH"(3))
          with blocked' i task Nil Skip show ?thesis
            by (intro fulfil[of pending running ?i t r out]) auto
        qed
      qed
    qed
  qed
qed


text \<open>
  The promise of the pool is fulfilled exactly when no upload throws, whatever the
  schedule and the limit; when it is rejected, the error is that of an upload that throws.
\<close>

lemma pool_loop_None_iff:
  "(snd (pool_loop sched lim f t pending running out) = None) =
     ((\<forall>task \<in> set running. \<forall>e. snd task \<noteq> Abort e) \<and>
      (\<forall>p \<in> set pending. \<forall>e. snd (f p) \<noteq> Abort e))"
proof (induction t pending running out rule: pool_loop_induct[where sched=sched and lim=lim and f=f])
  case (start t p ps running out)
  then show ?case by (auto simp: pool_loop_start)
next
  case (finished t out)
  show ?case by (simp add: pool_loop_done)
next
  case (emit t pending running out i ev evs r)
  have "pool_loop sched lim f t pending running out =
      pool_loop sched lim f (Suc t) pending (running[i := (evs, r)]) (out @ [ev])"
    using emit(1,2,4) emit(3) by (cases "running = []") (simp_all add: pool_loop_emit)
  moreover have "(\<forall>task \<in> set (running[i := (evs, r)]). \<forall>e. snd task \<noteq> Abort e) =
      (\<forall>task \<in> set running. \<forall>e. snd task \<noteq> Abort e)"
    using emit(3,4) set_nth_take_drop[of i running] set_update_take_drop[of i running "(evs, r)"]
    by auto
  ultimately show ?case using emit.IH by simp
next
  case (reject t pending running out i e)
  have "pool_loop sched lim f t pending running out = (out, Some e)"
    using reject(1,2,4) reject(3) by (cases "running = []") (simp_all add: pool_loop_reject)
  moreover have "running ! i \<in> set running" using reject(3) by simp
  ultimately show ?case using reject(4) by force
next
  case (fulfil t pending running out i r)
  have "pool_loop sched lim f t pending running out =
      pool_loop sched lim f (Suc t) pending (take i running @ drop (Suc i) running) out"
    using fulfil(1,2,4,5) fulfil(3) by (cases "running = []") (simp_all add: pool_loop_fulfil)
  moreover have "(\<forall>task \<in> set (take i running @ drop (Suc i) running). \<forall>e. snd task \<noteq> Abort e) =
      (\<forall>task \<in> set running. \<forall>e. snd task \<noteq> Abort e)"
    using fulfil(3,4,5) set_nth_take_drop[of i running] by auto
  ultimately show ?case using fulfil.IH by simp
qed

lemma pool_loop_Some:
  "snd (pool_loop sched lim f t pending running out) = Some e \<Longrightarrow>
     (\<exists>task \<in> set running. snd task = Abort e) \<or> (\<exists>p \<in> set pending. snd (f p) = Abort e)"
proof (induction t pending running out rule: pool_loop_induct[where sched=sched and lim=lim and f=f])
  case (start t p ps running out)
  then show ?case by (auto simp: pool_loop_start)
next
  case (finished t out)
  then show ?case by (simp add: pool_loop_done)
next
  case (emit t pending running out i ev evs r)
  have "pool_loop sched lim f t pending running out =
      pool_loop sched lim f (Suc t) pending (running[i := (evs, r)]) (out @ [ev])"
    using emit(1,2,4) emit(3) by (cases "running = []") (simp_all add: pool_loop_emit)
  with emit.prems emit.IH
  have "(\<exists>task \<in> set (running[i := (evs, r)]). snd task = Abort e) \<or>
      (\<exists>p \<in> set pending. snd (f p) = Abort e)" by simp
  moreover have "(\<exists>task \<in> set (running[i := (evs, r)]). snd task = Abort e) =
      (\<exists>task \<in> set running. snd task = Abort e)"
    using emit(3,4) set_nth_take_drop[of i running] set_update_take_drop[of i running "(evs, r)"]
    by auto
  ultimately show ?case by simp
next
  case (reject t pending running out i e')
  have "pool_loop sched lim f t pending running out = (out, Some e')"
    using reject(1,2,4) reject(3) by (cases "running = []") (simp_all add: pool_loop_reject)
  with reject.prems have "e' = e" by simp
  moreover have "running ! i \<in> set running" using reject(3) by simp
  ultimately show ?case using reject(4) by force
next
  case (fulfil t pending running out i r)
  have "pool_loop sched lim f t pending running out =
      pool_loop sched lim f (Suc t) pending (take i running @ drop (Suc i) running) out"
    using fulfil(1,2,4,5) fulfil(3) by (cases "running = []") (simp_all add: pool_loop_fulfil)
  with fulfil.prems fulfil.IH
  have "(\<exists>task \<in> set (take i running @ drop (Suc i) running). snd task = Abort e) \<or>
      (\<exists>p \<in> set pending. snd (f p) = Abort e)" by simp
  then show ?case using fulfil(3) set_nth_take_drop[of i running] by auto
qed

text \<open>
  When the promise is fulfilled, every upload has written all its lines, each once and in
  its own order; the lines of different uploads may be interleaved.
\<close>

lemma pool_loop_events:
  "snd (pool_loop sched lim f t pending running out) = None \<Longrightarrow>
   \<exists>rest. fst (pool_loop sched lim f t pending running out) = out @ rest \<and>
          mset rest = mset (concat (map fst running)) + mset (concat (map (\<lambda>p. fst (f p)) pending)) \<and>
          (\<forall>task \<in> set running. subseq (fst task) rest) \<and>
          (\<forall>p \<in> set pending. subseq (fst (f p)) rest)"
proof (induction t pending running out rule: pool_loop_induct[where sched=sched and lim=lim and f=f])
  case (start t p ps running out)
  then show ?case by (auto simp: pool_loop_start)
next
  case (finished t out)
  then show ?case by (simp add: pool_loop_done)
next
  case (emit t pending running out i ev evs r)
  have step: "pool_loop sched lim f t pending running out =
      pool_loop sched lim f (Suc t) pending (running[i := (evs, r)]) (out @ [ev])"
    using emit(1,2,4) emit(3) by (cases "running = []") (simp_all add: pool_loop_emit)
  with emit.prems emit.IH obtain rest where
    rest: "fst (pool_loop sched lim f t pending running out) = (out @ [ev]) @ rest"
    and m: "mset rest = mset (concat (map fst (running[i := (evs, r)]))) +
              mset (concat (map (\<lambda>p. fst (f p)) pending))"
    and run: "\<forall>task \<in> set (running[i := (evs, r)]). subseq (fst task) rest"
    and pend: "\<forall>p \<in> set pending. subseq (fst (f p)) rest"
    by auto
  have m': "mset (ev # rest) = mset (concat (map fst running)) +
              mset (concat (map (\<lambda>p. fst (f p)) pending))"
    using m emit(3,4)
    by (simp add: mset_concat_update_take_drop mset_concat_nth_take_drop[of i running fst])
  have run': "\<forall>task \<in> set running. subseq (fst task) (ev # rest)"
  proof
    fix task assume "task \<in> set running"
    then consider "task = running ! i" | "task \<in> set (take i running @ drop (Suc i) running)"
      using set_nth_take_drop[OF emit(3)] by auto
    then show "subseq (fst task) (ev # rest)"
    proof cases
      case 1
      have "(evs, r) \<in> set (running[i := (evs, r)])"
        using set_update_take_drop[OF emit(3)] by simp
      with run have "subseq evs rest" by force
      with 1 emit(4) show ?thesis by simp
    next
      case 2
      then have "task \<in> set (running[i := (evs, r)])"
        using set_update_take_drop[OF emit(3)] by simp
      with run have "subseq (fst task) rest" by simp
      then show ?thesis by (rule list_emb_Cons)
    qed
  qed
  have pend': "\<forall>p \<in> set pending. subseq (fst (f p)) (ev # rest)"
    using pend by (auto intro: list_emb_Cons)
  from rest m' run' pend' show ?case by (intro exI[of _ "ev # rest"]) simp
next
  case (reject t pending running out i e)
  have "pool_loop sched lim f t pending running out = (out, Some e)"
    using reject(1,2,4) reject(3) by (cases "running = []") (simp_all add: pool_loop_reject)
  with reject.prems show ?case by simp
next
  case (fulfil t pending running out i r)
  have step: "pool_loop sched lim f t pending running out =
      pool_loop sched lim f (Suc t) pending (take i running @ drop (Suc i) running) out"
    using fulfil(1,2,4,5) fulfil(3) by (cases "running = []") (simp_all add: pool_loop_fulfil)
  with fulfil.prems fulfil.IH obtain rest where
    rest: "fst (pool_loop sched lim f t pending running out) = out @ rest"
    and m: "mset rest = mset (concat (map fst (take i running @ drop (Suc i) running))) +
              mset (concat (map (\<lambda>p. fst (f p)) pending))"
    and run: "\<forall>task \<in> set (take i running @ drop (Suc i) running). subseq (fst task) rest"
    and pend: "\<forall>p \<in> set pending. subseq (fst (f p)) rest"
    by auto
  have m': "mset rest = mset (concat (map fst running)) +
              mset (concat (map (\<lambda>p. fst (f p)) pending))"
    using m fulfil(3,4) by (simp add: mset_concat_nth_take_drop[of i running fst])
  have run': "\<forall>task \<in> set running. subseq (fst task) rest"
    using run fulfil(3,4) set_nth_take_drop[of i running] by auto
  from rest m' run' pend show ?case by blast
qed


lemma asyncPool_None_iff:
  "(snd (asyncPool sched lim ps f) = None) = (\<forall>p \<in> set ps. \<forall>e. snd (f p) \<noteq> Abort e)"
  by (simp add: asyncPool_def pool_loop_None_iff)

lemma asyncPool_Some:
  "snd (asyncPool sched lim ps f) = Some e \<Longrightarrow> \<exists>p \<in> set ps. snd (f p) = Abort e"
  using pool_loop_Some[of sched lim f 0 ps "[]" "[]" e] by (simp add: asyncPool_def)

lemma asyncPool_None_no_Abort:
  "asyncPool sched lim ps f = (out, None) \<Longrightarrow> p \<in> set ps \<Longrightarrow> snd (f p) \<noteq> Abort e"
  using asyncPool_None_iff[of sched lim ps f] by simp

lemma asyncPool_events:
  assumes "snd (asyncPool sched lim ps f) = None"
  shows "mset (fst (asyncPool sched lim ps f)) = mset (concat (map (\<lambda>p. fst (f p)) ps))"
    and "p \<in> set ps \<Longrightarrow> subseq (fst (f p)) (fst (asyncPool sched lim ps f))"
  using pool_loop_events[of sched lim f 0 ps "[]" "[]"] assms by (auto simp: asyncPool_def)

text \<open>With one payload there is nothing to interleave.\<close>

lemma pool_loop_single:
  "pool_loop sched lim f t [] [(evs, r)] out =
     (out @ evs, case r of Abort e \<Rightarrow> Some e | _ \<Rightarrow> None)"
proof (induction evs arbitrary: t out)
  case Nil
  show ?case
  proof (cases "\<exists>e. r = Abort e")
    case True
    then obtain e where "r = Abort e" by blast
    then show ?thesis
      using pool_loop_reject[of "[]" "[(evs, r)]" lim sched t e f out for evs]
      by (simp add: pool_loop_reject)
  next
    case False
    then have "pool_loop sched lim f t [] [([], r)] out = pool_loop sched lim f (Suc t) [] [] out"
      using pool_loop_fulfil[of "[]" "[([], r)]" lim sched t r f out] by simp
    with False show ?thesis by (cases r) (simp_all add: pool_loop_done)
  qed
next
  case (Cons ev evs)
  have "pool_loop sched lim f t [] [(ev # evs, r)] out =
      pool_loop sched lim f (Suc t) [] [(evs, r)] (out @ [ev])"
    using pool_loop_emit[of "[]" "[(ev # evs, r)]" lim sched t ev evs r f out] by simp
  with Cons.IH show ?case by simp
qed

lemma asyncPool_single:
  "asyncPool sched lim [p] f = (fst (f p), case snd (f p) of Abort e \<Rightarrow> Some e | _ \<Rightarrow> None)"
proof -
  have "pool_loop sched lim f 0 [p] [] [] = pool_loop sched lim f 0 [] [f p] []"
    using pool_loop_start[of "[]" lim sched f 0 p "[]" "[]"] by simp
  then show ?thesis
    using pool_loop_single[of sched lim f 0 "fst (f p)" "snd (f p)" "[]"]
    by (simp add: asyncPool_def)
qed

lemma length_succeeded_skipped:
  assumes "\<And>p e. p \<in> set ps \<Longrightarrow> snd (uploadJUnitXML dry api p) \<noteq> Abort e"
  shows "length ps = length (succeeded dry api ps) + length (upload_skipped dry api ps)"
  using assms
proof (induction ps)
  case Nil
  then show ?case by (simp add: succeeded_def upload_skipped_def)
next
  case (Cons q qs)
  then have IH: "length qs = length (succeeded dry api qs) + length (upload_skipped dry api qs)"
    by simp
  from Cons.prems[of q] have "\<And>e. snd (uploadJUnitXML dry api q) \<noteq> Abort e" by simp
  then show ?case
    using IH by (cases "snd (uploadJUnitXML dry api q)") (auto simp: succeeded_def upload_skipped_def)
qed

subsection \<open>Finding the files\<close>

lemma jUnitXMLFiles_step_append:
  "jUnitXMLFiles_step w acc b = acc @ candidates_of w b"
  by (simp add: jUnitXMLFiles_step_def candidates_of_def Let_def)

lemma foldl_jUnitXMLFiles_step:
  "foldl (jUnitXMLFiles_step w) acc bs = acc @ concat (map (candidates_of w) bs)"
  by (induction bs arbitrary: acc) (simp_all add: jUnitXMLFiles_step_append)

lemma jUnitXMLFiles_concat:
  "jUnitXMLFiles w bs = concat (map (candidates_of w) bs)"
  by (simp add: jUnitXMLFiles_def foldl_jUnitXMLFiles_step)

lemma candidates_of_eq:
  "candidates_of w b =
     (if extname w b \<noteq> [] then (if existsSync w b then [b] else [])
      else glob_sync w (buildPath w b ''*.xml''))"
  by (simp add: candidates_of_def jUnitXMLFiles_step_def)




lemma validUniqueFiles_Inr:
  "validUniqueFiles w xs = (out, Inr fs) \<Longrightarrow> fs = filter (passes_validation w) xs"
proof (induction xs arbitrary: out fs)
  case Nil
  then show ?case by simp
next
  case (Cons x xs)
  obtain o2 r2 where rest: "validUniqueFiles w xs = (o2, r2)" by (cases "validUniqueFiles w xs")
  show ?case
  proof (cases "validateXml w x")
    case (Inl e)
    with Cons.prems show ?thesis by simp
  next
    case (Inr m)
    show ?thesis
    proof (cases "truthy m")
      case True
      with Cons.prems Inr rest have "r2 = Inr fs" by simp
      with Cons.IH rest have "fs = filter (passes_validation w) xs" by simp
      moreover from True Inr have "\<not> passes_validation w x" by (simp add: passes_validation_def)
      ultimately show ?thesis by simp
    next
      case False
      with Cons.prems Inr rest obtain fs' where r2: "r2 = Inr fs'" and fs: "fs = x # fs'"
        by (cases r2) auto
      with Cons.IH rest have "fs' = filter (passes_validation w) xs" by simp
      moreover from False Inr have "passes_validation w x" by (simp add: passes_validation_def)
      ultimately show ?thesis using fs by simp
    qed
  qed
qed



lemma getMatchingJUnitXMLFiles_paths:
  assumes "getMatchingJUnitXMLFiles w cfg this = (out, Inr payloads)"
  shows "map xmlPath payloads =
           filter (passes_validation w)
             (new_Set (jUnitXMLFiles w (case basePaths this of Some bs \<Rightarrow> bs | None \<Rightarrow> [])))"
proof -
  let ?files = "new_Set (jUnitXMLFiles w (case basePaths this of Some bs \<Rightarrow> bs | None \<Rightarrow> []))"
  obtain o1 r1 where v: "validUniqueFiles w ?files = (o1, r1)"
    by (cases "validUniqueFiles w ?files")
  from assms v obtain fs where r1: "r1 = Inr fs" and ps: "map xmlPath payloads = fs"
    by (cases r1) (auto simp: getMatchingJUnitXMLFiles_def Let_def comp_def)
  from v r1 have "fs = filter (passes_validation w) ?files" by (simp add: validUniqueFiles_Inr)
  with ps show ?thesis by simp
qed

subsection \<open>The batch\<close>

lemma execute_batch_Completes:
  assumes "execute_batch w cfg this api = (out, Completes)"
  shows "\<exists>out1 out2 payloads.
           getMatchingJUnitXMLFiles w cfg this = (out1, Inr payloads) \<and>
           asyncPool (schedule w) (maxConcurrency this) payloads
             (uploadJUnitXML (dryRun this) api) = (out2, None) \<and>
           out = out1 @ out2 @ [SuccessfulCommand (length payloads)]"
  using assms
  by (auto simp: execute_batch_def split: prod.splits sum.splits option.splits)

text \<open>
  A batch runs to its end exactly when no upload of its payloads throws; otherwise it
  throws the error of one of the uploads that throw. Neither depends on the schedule or on
  the limit of the pool.
\<close>

lemma execute_batch_Completes_iff:
  assumes gm: "getMatchingJUnitXMLFiles w cfg this = (out1, Inr payloads)"
  shows "(snd (execute_batch w cfg this api) = Completes) =
           (\<forall>p \<in> set payloads. \<forall>e. snd (uploadJUnitXML (dryRun this) api p) \<noteq> Abort e)"
proof -
  let ?pool = "asyncPool (schedule w) (maxConcurrency this) payloads (uploadJUnitXML (dryRun this) api)"
  have "(snd (execute_batch w cfg this api) = Completes) = (snd ?pool = None)"
    using gm by (cases ?pool; cases "snd ?pool") (auto simp: execute_batch_def)
  then show ?thesis by (simp add: asyncPool_None_iff)
qed

lemma execute_batch_Throws:
  assumes gm: "getMatchingJUnitXMLFiles w cfg this = (out1, Inr payloads)"
    and p: "p \<in> set payloads"
    and abort: "snd (uploadJUnitXML (dryRun this) api p) = Abort err"
  shows "\<exists>e. snd (execute_batch w cfg this api) = Throws (UploadError e) \<and>
             (\<exists>q \<in> set payloads. snd (uploadJUnitXML (dryRun this) api q) = Abort e)"
proof -
  let ?pool = "asyncPool (schedule w) (maxConcurrency this) payloads (uploadJUnitXML (dryRun this) api)"
  have "snd ?pool \<noteq> None"
    using p abort by (auto simp: asyncPool_None_iff)
  then obtain e where e: "snd ?pool = Some e" by auto
  then have "\<exists>q \<in> set payloads. snd (uploadJUnitXML (dryRun this) api q) = Abort e"
    by (rule asyncPool_Some)
  moreover have "snd (execute_batch w cfg this api) = Throws (UploadError e)"
    using gm e by (cases ?pool) (auto simp: execute_batch_def)
  ultimately show ?thesis by blast
qed

text \<open>
  In the output of a batch that ran to its end, the lines of each upload stand in their
  own order, before the closing line.
\<close>

lemma execute_batch_events:
  assumes run: "execute_batch w cfg this api = (out, Completes)"
    and gm: "getMatchingJUnitXMLFiles w cfg this = (out1, Inr payloads)"
  shows "\<exists>out2. out = out1 @ out2 @ [SuccessfulCommand (length payloads)] \<and>
           mset out2 = mset (concat (map (\<lambda>p. fst (uploadJUnitXML (dryRun this) api p)) payloads)) \<and>
           (\<forall>p \<in> set payloads. subseq (fst (uploadJUnitXML (dryRun this) api p)) out2)"
proof -
  from execute_batch_Completes[OF run] gm obtain out2 where
    pool: "asyncPool (schedule w) (maxConcurrency this) payloads
             (uploadJUnitXML (dryRun this) api) = (out2, None)"
    and out: "out = out1 @ out2 @ [SuccessfulCommand (length payloads)]"
    by auto
  from pool have none: "snd (asyncPool (schedule w) (maxConcurrency this) payloads
             (uploadJUnitXML (dryRun this) api)) = None" by simp
  from asyncPool_events[OF none] pool out show ?thesis by auto
qed

subsection \<open>The sample world\<close>

lemma sample_extname:
  "extname (sample_world a) ''reports'' = []"
  "extname (sample_world a) ''reports/a.xml'' = ''.xml''"
  "extname (sample_world a) ''missing.xml'' = ''.xml''"
  by (simp_all add: sample_world_def)

lemma sample_exists:
  "existsSync (sample_world a) ''reports/a.xml''"
  "\<not> existsSync (sample_world a) ''missing.xml''"
  by (simp_all add: sample_world_def)

lemma sample_glob:
  "glob_sync (sample_world a) (buildPath (sample_world a) ''reports'' ''*.xml'') = [''reports/a.xml'', ''reports/b.xml'']"
  by (simp add: sample_world_def)

lemma sample_files: "jUnitXMLFiles (sample_world a) [''reports'', ''reports/a.xml'', ''missing.xml''] = [''reports/a.xml'', ''reports/b.xml'', ''reports/a.xml'']"
  by (simp add: jUnitXMLFiles_def jUnitXMLFiles_step_def sample_extname sample_exists sample_glob)

lemma sample_validate_a: "validateXml (sample_world a) ''reports/a.xml'' = Inr None"
  by (simp add: validateXml_def sample_world_def js_truthy_def)

lemma sample_validate_b: "validateXml (sample_world a) ''reports/b.xml'' = Inr (Some ''Neither <testsuites> nor <testsuite> are the root tag.'')"
  by (simp add: validateXml_def sample_world_def js_truthy_def)

lemma sample_validUniqueFiles: "validUniqueFiles (sample_world a) [''reports/a.xml'', ''reports/b.xml''] =
   ([InvalidFile ''reports/b.xml'' ''Neither <testsuites> nor <testsuite> are the root tag.''], Inr [''reports/a.xml''])"
  by (simp add: sample_validate_a sample_validate_b truthy_def)

lemma sample_new_Set: "new_Set [''reports/a.xml'', ''reports/b.xml'', ''reports/a.xml''] = [''reports/a.xml'', ''reports/b.xml'']"
  by (simp add: new_Set_def)

lemma sample_getMatchingJUnitXMLFiles: "getMatchingJUnitXMLFiles (sample_world a) sample_config sample_command =
  ([InvalidFile ''reports/b.xml'' ''Neither <testsuites> nor <testsuite> are the root tag.''], Inr [sample_payload])"
proof -
  have bp: "basePaths sample_command = Some [''reports'', ''reports/a.xml'', ''missing.xml'']"
    by (simp add: sample_command_def)
  have tg: "mergeSpanTags Map.empty Map.empty Map.empty Map.empty None = Map.empty"
    by (simp add: mergeSpanTags_def truthy_def)
  have w: "getCISpanTags (sample_world a) = Map.empty" "getGitMetadata (sample_world a) = Map.empty"
    by (simp_all add: sample_world_def)
  have c: "tags sample_command = None" "command.service sample_command = Some ''svc''"
    "config.env sample_config = None" "config.envVarTags sample_config = None"
    by (simp_all add: sample_command_def sample_config_def)
  show ?thesis
    unfolding getMatchingJUnitXMLFiles_def bp
    by (simp add: sample_files sample_new_Set sample_validUniqueFiles w c tg truthy_def sample_payload_def del: validUniqueFiles.simps)
qed

subsection \<open>The command as a whole\<close>

text \<open>
  With a service, a base path and an API key, \<^verbatim>\<open>execute\<close> writes the command info and runs
  the batch, with the explicit env resolved and the base paths normalised; it ends as the
  batch ends.
\<close>

lemma execute_runs_batch:
  assumes "truthy (command.service this)" and "basePaths this = Some bs" and "bs \<noteq> []"
    and "truthy (js_or (DATADOG_API_KEY penv) (DD_API_KEY penv))"
  shows "execute w penv this =
           (case execute_batch w (resolve_env (initial_config penv) this)
                   (this\<lparr>basePaths := Some (map (normalize w) bs)\<rparr>) (apiConstructor w) of
              (out, r) \<Rightarrow>
                (CommandInfo (map (normalize w) bs)
                   (case command.service this of Some s \<Rightarrow> s | None \<Rightarrow> [])
                   (maxConcurrency this) (dryRun this) # out, r))"
  using assms
  by (simp add: execute_def Let_def getApiHelper_def resolve_env_def initial_config_def
      split: prod.splits)

lemma execute_missing_service:
  "\<not> truthy (command.service this) \<Longrightarrow> \<not> truthy (DD_SERVICE penv) \<Longrightarrow>
   execute w penv this = ([MissingService], ReturnCode 1)"
  by (simp add: execute_def Let_def)

lemma execute_missing_api_key:
  assumes "truthy (command.service this)" and "basePaths this = Some bs" and "bs \<noteq> []"
    and "\<not> truthy (js_or (DATADOG_API_KEY penv) (DD_API_KEY penv))"
  shows "execute w penv this = ([ApiKeyMissingNotice], Throws ApiKeyIsMissing)"
  using assms
  by (simp add: execute_def Let_def getApiHelper_def resolve_env_def initial_config_def)

section \<open>Failures that are not retried\<close>

lemma stop_subset_no_retry: "s \<notin> set errorCodesNoRetry \<Longrightarrow> s \<notin> set errorCodesStopUpload"
  by (auto simp: errorCodesNoRetry_def errorCodesStopUpload_def)

lemma uploadJUnitXML_exhausted:
  assumes all: "\<forall>n. 1 \<le> n \<and> n < 7 \<longrightarrow>
            api p n = Rejected (e n) \<and> (\<exists>s. response (e n) = Some s \<and> s \<notin> set errorCodesNoRetry)"
  shows "\<exists>err \<in> set (map e [1..<7]).
           uploadJUnitXML False api p =
             (concat (map (\<lambda>n. [ApiUpload (xmlPath p), RetriedUpload (xmlPath p) (message (e n)) n])
                        [1..<6]) @ [ApiUpload (xmlPath p), FailedUpload (xmlPath p) err],
              Skip err)"
proof -
  have prior: "\<forall>n. 1 \<le> n \<and> n < 6 \<longrightarrow>
            api p n = Rejected (e n) \<and> (\<exists>s. response (e n) = Some s \<and> s \<notin> set errorCodesNoRetry)"
    using all by auto
  note pre = retry_upload_prefix[where api=api and p=p and e=e and k=6, OF prior]
  have "(1::nat) \<le> 6 \<and> (6::nat) < 7" by simp
  with all have "api p 6 = Rejected (e 6) \<and>
      (\<exists>s. response (e 6) = Some s \<and> s \<notin> set errorCodesNoRetry)" by blast
  then obtain s6 where six: "api p 6 = Rejected (e 6)" "response (e 6) = Some s6"
    "s6 \<notin> set errorCodesNoRetry" by blast
  then have last_attempt: "upload_attempt False api p 6 = ([ApiUpload (xmlPath p)], Thrown (e 6))"
    by (simp add: upload_attempt_thrown)
  have "[1..<7] = [1..<6] @ [6::nat]"
    using upt_Suc_append[of 1 6] by simp
  then have "map e [1..<6] @ [e 6] = map e [1..<7]"
    by simp
  moreover have "map e [1..<7] \<noteq> []" by simp
  ultimately obtain err where err: "err \<in> set (map e [1..<7])"
    and main: "mainError (map e [1..<6] @ [e 6]) = Some err"
    using mainError_mem[of "map e [1..<7]"] by auto
  from err obtain n where n: "1 \<le> n \<and> n < 7" "err = e n" by auto
  from all n(1) have "\<exists>s. response (e n) = Some s \<and> s \<notin> set errorCodesNoRetry" by blast
  with n(2) obtain s where "response err = Some s" "s \<notin> set errorCodesNoRetry" by blast
  then have cls: "response err = Some s" "s \<notin> set errorCodesStopUpload"
    by (simp_all add: stop_subset_no_retry)
  have run: "retry 5 (upload_attempt False api p)
               (\<lambda>e attempt. [RetriedUpload (xmlPath p) (message e) attempt]) 1 [] =
             (concat (map (\<lambda>n. [ApiUpload (xmlPath p), RetriedUpload (xmlPath p) (message (e n)) n])
                        [1..<6]) @ [ApiUpload (xmlPath p)], Some err)"
    by (subst pre) (use main in \<open>simp_all add: last_attempt\<close>)
  have "uploadJUnitXML False api p =
             (concat (map (\<lambda>n. [ApiUpload (xmlPath p), RetriedUpload (xmlPath p) (message (e n)) n])
                        [1..<6]) @ [ApiUpload (xmlPath p), FailedUpload (xmlPath p) err],
              Skip err)"
    unfolding uploadJUnitXML_def by (subst run) (simp add: cls)
  with err show ?thesis by blast
qed


lemma bail_outcome_facts:
  assumes run: "uploadJUnitXML False api p =
           (concat (map (\<lambda>n. [ApiUpload (xmlPath p), RetriedUpload (xmlPath p) (message (e n)) n])
                      [1..<k]) @ [ApiUpload (xmlPath p), FailedUpload (xmlPath p) err], r)"
    and k: "1 \<le> k"
  shows "api_calls (fst (uploadJUnitXML False api p)) = k"
    and "length (retry_notices (fst (uploadJUnitXML False api p))) = k - 1"
    and "last (fst (uploadJUnitXML False api p)) = FailedUpload (xmlPath p) err"
    and "snd (uploadJUnitXML False api p) = r"
proof -
  show "api_calls (fst (uploadJUnitXML False api p)) = k"
    using k by (simp add: run api_calls_append api_calls_rounds) (simp add: api_calls_def)
  show "length (retry_notices (fst (uploadJUnitXML False api p))) = k - 1"
    by (simp add: run retry_notices_append retry_notices_rounds) (simp add: retry_notices_def)
  show "last (fst (uploadJUnitXML False api p)) = FailedUpload (xmlPath p) err"
    by (simp add: run)
  show "snd (uploadJUnitXML False api p) = r"
    by (simp add: run)
qed

subsection \<open>What a batch does with one upload\<close>

lemma length_filter_less:
  "x \<in> set xs \<Longrightarrow> \<not> P x \<Longrightarrow> length (filter P xs) < length xs"
  by (induction xs) (auto simp: less_Suc_eq_le)

lemma execute_batch_count:
  assumes "execute_batch w cfg this api = (out, Completes)"
    and "getMatchingJUnitXMLFiles w cfg this = (out1, Inr payloads)"
  shows "last out = SuccessfulCommand (length payloads)"
  using execute_batch_Completes[OF assms(1)] assms(2) by auto

text \<open>When all the uploads that throw have the same error, the batch throws that error.\<close>

lemma execute_batch_Throws_that_error:
  assumes gm: "getMatchingJUnitXMLFiles w cfg this = (out1, Inr payloads)"
    and p: "p \<in> set payloads"
    and abort: "snd (uploadJUnitXML (dryRun this) api p) = Abort err"
    and only: "\<forall>q \<in> set payloads. \<forall>e. snd (uploadJUnitXML (dryRun this) api q) = Abort e \<longrightarrow> e = err"
  shows "snd (execute_batch w cfg this api) = Throws (UploadError err)"
  using execute_batch_Throws[OF gm p abort] only by auto

text \<open>
  An upload that returns does not decide how the batch ends: the batch runs to its end
  exactly when none of the other uploads throws.
\<close>

lemma execute_batch_Completes_but:
  assumes gm: "getMatchingJUnitXMLFiles w cfg this = (out1, Inr payloads)"
    and returns: "\<forall>e. snd (uploadJUnitXML (dryRun this) api p) \<noteq> Abort e"
  shows "(snd (execute_batch w cfg this api) = Completes) =
           (\<forall>q \<in> set payloads. q \<noteq> p \<longrightarrow> (\<forall>e. snd (uploadJUnitXML (dryRun this) api q) \<noteq> Abort e))"
  using execute_batch_Completes_iff[OF gm, of api] returns by auto

lemma execute_batch_subseq:
  assumes run: "execute_batch w cfg this api = (out, Completes)"
    and gm: "getMatchingJUnitXMLFiles w cfg this = (out1, Inr payloads)"
    and p: "p \<in> set payloads"
  shows "subseq (fst (uploadJUnitXML (dryRun this) api p)) out"
proof -
  from execute_batch_events[OF run gm] p obtain out2 where
    out: "out = out1 @ out2 @ [SuccessfulCommand (length payloads)]"
    and sub: "subseq (fst (uploadJUnitXML (dryRun this) api p)) out2"
    by blast
  have "subseq out2 out"
    unfolding out by (simp add: list_emb_append2 subseq_rev_drop_many)
  with sub show ?thesis by (rule subseq_order.trans)
qed

lemma uploadJUnitXML_accepted:
  assumes "api p 1 = Uploaded"
  shows "uploadJUnitXML False api p = ([ApiUpload (xmlPath p)], Success)"
proof -
  have "upload_attempt False api p 1 = ([ApiUpload (xmlPath p)], Resolved)"
    using assms by (simp add: upload_attempt_def)
  then have "retry 5 (upload_attempt False api p) onRetry 1 [] = ([ApiUpload (xmlPath p)], None)"
    for onRetry
    by (rule retry_resolved)
  then show ?thesis by (simp add: uploadJUnitXML_def)
qed

subsection \<open>The sample worlds as batches\<close>

lemma sample_execute_batch:
  assumes "uploadJUnitXML False a sample_payload = (out, r)" and "\<And>e. r \<noteq> Abort e"
  shows "execute_batch (sample_world a') sample_config sample_command a =
           (InvalidFile ''reports/b.xml'' ''Neither <testsuites> nor <testsuite> are the root tag.''
              # out @ [SuccessfulCommand 1], Completes)"
proof -
  have "dryRun sample_command = False" by (simp add: sample_command_def)
  moreover have "asyncPool sched limit [sample_payload] (uploadJUnitXML False a) = (out, None)"
    for sched limit
    using assms by (cases r) (auto simp: asyncPool_single)
  ultimately show ?thesis
    by (simp add: execute_batch_def sample_getMatchingJUnitXMLFiles)
qed

lemma two_reports_getMatchingJUnitXMLFiles:
  "getMatchingJUnitXMLFiles (two_reports_world a) sample_config two_reports_command =
     ([], Inr [sample_payload, second_payload])"
proof -
  let ?w = "two_reports_world a"
  have files: "jUnitXMLFiles ?w [''reports''] = [''reports/a.xml'', ''reports/c.xml'']"
    by (simp add: jUnitXMLFiles_def jUnitXMLFiles_step_def two_reports_world_def sample_world_def)
  have ns: "new_Set [''reports/a.xml'', ''reports/c.xml''] = [''reports/a.xml'', ''reports/c.xml'']"
    by (simp add: new_Set_def)
  have va: "validateXml ?w ''reports/a.xml'' = Inr None"
    and vc: "validateXml ?w ''reports/c.xml'' = Inr None"
    by (simp_all add: validateXml_def two_reports_world_def sample_world_def js_truthy_def)
  have vu: "validUniqueFiles ?w [''reports/a.xml'', ''reports/c.xml''] =
      ([], Inr [''reports/a.xml'', ''reports/c.xml''])"
    by (simp add: va vc truthy_def)
  have bp: "basePaths two_reports_command = Some [''reports'']"
    by (simp add: two_reports_command_def)
  have tg: "mergeSpanTags Map.empty Map.empty Map.empty Map.empty None = Map.empty"
    by (simp add: mergeSpanTags_def truthy_def)
  have w: "getCISpanTags ?w = Map.empty" "getGitMetadata ?w = Map.empty"
    by (simp_all add: two_reports_world_def sample_world_def)
  have c: "tags two_reports_command = None" "command.service two_reports_command = Some ''svc''"
    "config.env sample_config = None" "config.envVarTags sample_config = None"
    by (simp_all add: two_reports_command_def sample_command_def sample_config_def)
  show ?thesis
    unfolding getMatchingJUnitXMLFiles_def bp
    by (simp add: files ns vu w c tg truthy_def sample_payload_def second_payload_def
        del: validUniqueFiles.simps)
qed


section \<open>Failures with status 400, 403 or 413\<close>



section \<open>Failures without a response\<close>

text \<open>
  C2, as amended. A failure without a response (\<^verbatim>\<open>error.response\<close> is undefined: the request
  never got an answer) is not retried: the function given to \<^verbatim>\<open>retry\<close> bails, whatever the
  number \<open>k\<close> of the attempt, so the calls of the endpoint stop at \<open>k\<close>; the \<^verbatim>\<open>catch\<close> block
  reports the failure and rethrows. Every batch that has the payload then throws the error
  of an upload of that batch, this one if no other upload throws another, whatever the
  schedule and the limit of the pool.
\<close>

theorem no_response_is_not_retried:
  assumes prior: "\<forall>n. 1 \<le> n \<and> n < k \<longrightarrow>
            api p n = Rejected (e n) \<and> (\<exists>s. response (e n) = Some s \<and> s \<notin> set errorCodesNoRetry)"
    and k: "1 \<le> k" "k \<le> 6"
    and fail: "api p k = Rejected err" "response err = None"
  shows "api_calls (fst (uploadJUnitXML False api p)) = k \<and>
         length (retry_notices (fst (uploadJUnitXML False api p))) = k - 1 \<and>
         last (fst (uploadJUnitXML False api p)) = FailedUpload (xmlPath p) err \<and>
         snd (uploadJUnitXML False api p) = Abort err \<and>
         (\<not> dryRun this \<and> getMatchingJUnitXMLFiles w cfg this = (out1, Inr payloads) \<and>
          p \<in> set payloads \<longrightarrow>
            (\<exists>e'. snd (execute_batch w cfg this api) = Throws (UploadError e') \<and>
                  (\<exists>q \<in> set payloads. snd (uploadJUnitXML False api q) = Abort e'))) \<and>
         (\<not> dryRun this \<and> getMatchingJUnitXMLFiles w cfg this = (out1, Inr payloads) \<and>
          p \<in> set payloads \<and>
          (\<forall>q \<in> set payloads. \<forall>e'. snd (uploadJUnitXML False api q) = Abort e' \<longrightarrow> e' = err) \<longrightarrow>
            snd (execute_batch w cfg this api) = Throws (UploadError err))"
proof -
  have bail: "upload_attempt False api p k = ([ApiUpload (xmlPath p)], Bailed err)"
    using fail by (simp add: upload_attempt_bailed_no_response)
  have cls: "(case response err of
               Some status \<Rightarrow> if status \<notin> set errorCodesStopUpload then Skip err else Abort err
             | None \<Rightarrow> Abort err) = Abort err"
    using fail by simp
  note run = uploadJUnitXML_bail[where api=api and p=p and e=e and k=k, OF prior k bail, unfolded cls]
  note facts = bail_outcome_facts[OF run k(1)]
  have batch: "\<exists>e'. snd (execute_batch w cfg this api) = Throws (UploadError e') \<and>
                  (\<exists>q \<in> set payloads. snd (uploadJUnitXML False api q) = Abort e')"
    if h: "\<not> dryRun this" "getMatchingJUnitXMLFiles w cfg this = (out1, Inr payloads)"
      "p \<in> set payloads"
  proof -
    from facts(4) h(1) have "snd (uploadJUnitXML (dryRun this) api p) = Abort err" by simp
    from execute_batch_Throws[OF h(2,3) this] h(1) show ?thesis by simp
  qed
  have that_error: "snd (execute_batch w cfg this api) = Throws (UploadError err)"
    if h: "\<not> dryRun this" "getMatchingJUnitXMLFiles w cfg this = (out1, Inr payloads)"
      "p \<in> set payloads"
      "\<forall>q \<in> set payloads. \<forall>e'. snd (uploadJUnitXML False api q) = Abort e' \<longrightarrow> e' = err"
  proof -
    from facts(4) h(1) have "snd (uploadJUnitXML (dryRun this) api p) = Abort err" by simp
    moreover from h(1,4) have "\<forall>q \<in> set payloads. \<forall>e'.
        snd (uploadJUnitXML (dryRun this) api q) = Abort e' \<longrightarrow> e' = err" by simp
    ultimately show ?thesis using h(2,3) by (intro execute_batch_Throws_that_error)
  qed
  from facts batch that_error show ?thesis by blast
qed

theorem no_response_is_not_retried_witness:
  "api_calls (fst (uploadJUnitXML False
       (api_for ''reports/a.xml''
          (api_script [Rejected (http_error 500), Rejected (http_error 500), Rejected network_error])
          (api_always Uploaded))
       sample_payload)) = 3 \<and>
   length (retry_notices (fst (uploadJUnitXML False
       (api_for ''reports/a.xml''
          (api_script [Rejected (http_error 500), Rejected (http_error 500), Rejected network_error])
          (api_always Uploaded))
       sample_payload))) = 2 \<and>
   snd (uploadJUnitXML False
       (api_for ''reports/a.xml''
          (api_script [Rejected (http_error 500), Rejected (http_error 500), Rejected network_error])
          (api_always Uploaded))
       sample_payload) = Abort network_error \<and>
   snd (execute_batch
       (two_reports_world (api_for ''reports/a.xml''
          (api_script [Rejected (http_error 500), Rejected (http_error 500), Rejected network_error])
          (api_always Uploaded)))
       sample_config two_reports_command
       (api_for ''reports/a.xml''
          (api_script [Rejected (http_error 500), Rejected (http_error 500), Rejected network_error])
          (api_always Uploaded))) = Throws (UploadError network_error)"
proof -
  let ?api = "api_for ''reports/a.xml''
      (api_script [Rejected (http_error 500), Rejected (http_error 500), Rejected network_error])
      (api_always Uploaded)"
  have path: "xmlPath sample_payload = ''reports/a.xml''" "xmlPath second_payload = ''reports/c.xml''"
    by (simp_all add: sample_payload_def second_payload_def)
  have prior: "\<forall>n. 1 \<le> n \<and> n < 3 \<longrightarrow>
      ?api sample_payload n = Rejected ((\<lambda>_. http_error 500) n) \<and>
      (\<exists>s. response ((\<lambda>_. http_error 500) n) = Some s \<and> s \<notin> set errorCodesNoRetry)"
  proof (intro allI impI)
    fix n :: nat
    assume "1 \<le> n \<and> n < 3"
    then consider "n = 1" | "n = 2" by arith
    then show "?api sample_payload n = Rejected ((\<lambda>_. http_error 500) n) \<and>
      (\<exists>s. response ((\<lambda>_. http_error 500) n) = Some s \<and> s \<notin> set errorCodesNoRetry)"
      by cases (simp_all add: api_for_def path api_script_def http_error_def errorCodesNoRetry_def)
  qed
  have fail: "?api sample_payload 3 = Rejected network_error" "response network_error = None"
    by (simp_all add: api_for_def path api_script_def network_error_def)
  have second: "uploadJUnitXML False ?api second_payload = ([ApiUpload ''reports/c.xml''], Success)"
    using uploadJUnitXML_accepted[of ?api second_payload]
    by (simp add: api_for_def path api_always_def)
  have dry: "\<not> dryRun two_reports_command"
    by (simp add: two_reports_command_def sample_command_def)
  note inst = no_response_is_not_retried[where api="?api" and p=sample_payload and k=3
          and e="\<lambda>_. http_error 500" and this=two_reports_command
          and w="two_reports_world ?api" and cfg=sample_config
          and payloads="[sample_payload, second_payload]" and ?out1.0="[]", OF prior _ _ fail]
  have up: "snd (uploadJUnitXML False ?api sample_payload) = Abort network_error"
    using inst by simp
  have "snd (execute_batch (two_reports_world ?api) sample_config two_reports_command ?api) =
      Throws (UploadError network_error)"
    using inst dry two_reports_getMatchingJUnitXMLFiles[of ?api] up second by simp
  with inst show ?thesis by simp
qed

text \<open>
  The claim as stated fails where every call of the endpoint fails without a response: the
  endpoint is called once, no retry notice is written, and the upload throws.
\<close>

theorem no_response_counterexample:
  "api_calls (fst (uploadJUnitXML False (api_always (Rejected network_error)) sample_payload)) = 1 \<and>
   retry_notices (fst (uploadJUnitXML False (api_always (Rejected network_error)) sample_payload)) = [] \<and>
   snd (uploadJUnitXML False (api_always (Rejected network_error)) sample_payload) = Abort network_error"
proof -
  have "upload_attempt False (api_always (Rejected network_error)) sample_payload 1 =
          ([ApiUpload (xmlPath sample_payload)], Bailed network_error)"
    by (simp add: upload_attempt_def api_always_def network_error_def)
  then have "retry 5 (upload_attempt False (api_always (Rejected network_error)) sample_payload)
               onRetry 1 [] = ([ApiUpload (xmlPath sample_payload)], Some network_error)" for onRetry
    by (rule retry_bailed)
  then have "uploadJUnitXML False (api_always (Rejected network_error)) sample_payload =
          ([ApiUpload (xmlPath sample_payload), FailedUpload (xmlPath sample_payload) network_error],
           Abort network_error)"
    by (simp add: uploadJUnitXML_def network_error_def)
  then show ?thesis
    by (simp add: api_calls_def retry_notices_def)
qed

section \<open>Six failures with status 500\<close>

text \<open>
  C4, as amended. When every call of the endpoint for a payload fails with status 500, the
  endpoint is called exactly 6 times; before each of the 5 retries a retry notice is
  written with the number of the attempt that failed and the message of its error, in the
  order of the attempts; then the failure is reported with one of the six errors and the
  upload returns (\<open>Skip\<close>). It is not fatal: a batch that has the payload runs to its end
  exactly when none of the other uploads throws, whatever the schedule and the limit of
  the pool, and the lines of the upload stand in the output of the batch in their order.
  The payload is not one of the successful uploads, yet it is counted in the closing line,
  which reports the number of payloads.
\<close>

theorem status_500_six_attempts_then_skip:
  assumes always: "\<forall>n. api p n = Rejected (e n) \<and> response (e n) = Some 500"
  shows "(\<exists>err \<in> set (map e [1..<7]).
            response err = Some 500 \<and>
            uploadJUnitXML False api p =
              (concat (map (\<lambda>n. [ApiUpload (xmlPath p), RetriedUpload (xmlPath p) (message (e n)) n])
                         [1..<6]) @ [ApiUpload (xmlPath p), FailedUpload (xmlPath p) err],
               Skip err)) \<and>
         api_calls (fst (uploadJUnitXML False api p)) = 6 \<and>
         retry_notices (fst (uploadJUnitXML False api p)) =
           map (\<lambda>n. RetriedUpload (xmlPath p) (message (e n)) n) [1..<6] \<and>
         (\<not> dryRun this \<and> getMatchingJUnitXMLFiles w cfg this = (out1, Inr payloads) \<and>
          p \<in> set payloads \<longrightarrow>
            (snd (execute_batch w cfg this api) = Completes) =
              (\<forall>q \<in> set payloads. q \<noteq> p \<longrightarrow>
                 (\<forall>e'. snd (uploadJUnitXML False api q) \<noteq> Abort e'))) \<and>
         (\<not> dryRun this \<and> getMatchingJUnitXMLFiles w cfg this = (out1, Inr payloads) \<and>
          p \<in> set payloads \<and> execute_batch w cfg this api = (out, Completes) \<longrightarrow>
            last out = SuccessfulCommand (length payloads) \<and>
            length (succeeded False api payloads) < length payloads) \<and>
         (\<not> dryRun this \<and> getMatchingJUnitXMLFiles w cfg this = (out1, Inr payloads) \<and>
          p \<in> set payloads \<and> execute_batch w cfg this api = (out, Completes) \<longrightarrow>
            subseq (fst (uploadJUnitXML False api p)) out)"
proof -
  have all: "\<forall>n. 1 \<le> n \<and> n < 7 \<longrightarrow>
            api p n = Rejected (e n) \<and> (\<exists>s. response (e n) = Some s \<and> s \<notin> set errorCodesNoRetry)"
    using always by (simp add: errorCodesNoRetry_def)
  from uploadJUnitXML_exhausted[where api=api and p=p and e=e, OF all]
  obtain err where err: "err \<in> set (map e [1..<7])"
    and run: "uploadJUnitXML False api p =
              (concat (map (\<lambda>n. [ApiUpload (xmlPath p), RetriedUpload (xmlPath p) (message (e n)) n])
                         [1..<6]) @ [ApiUpload (xmlPath p), FailedUpload (xmlPath p) err],
               Skip err)"
    by blast
  from err always have status: "response err = Some 500" by auto
  have calls: "api_calls (fst (uploadJUnitXML False api p)) = 6"
    using bail_outcome_facts(1)[OF run] by simp
  have notices: "retry_notices (fst (uploadJUnitXML False api p)) =
           map (\<lambda>n. RetriedUpload (xmlPath p) (message (e n)) n) [1..<6]"
    by (simp add: run retry_notices_append retry_notices_rounds) (simp add: retry_notices_def)
  have skip: "snd (uploadJUnitXML False api p) = Skip err"
    by (simp add: run)
  have batch: "(snd (execute_batch w cfg this api) = Completes) =
              (\<forall>q \<in> set payloads. q \<noteq> p \<longrightarrow>
                 (\<forall>e'. snd (uploadJUnitXML False api q) \<noteq> Abort e'))"
    if h: "\<not> dryRun this" "getMatchingJUnitXMLFiles w cfg this = (out1, Inr payloads)"
  proof -
    from skip h(1) have "\<forall>e'. snd (uploadJUnitXML (dryRun this) api p) \<noteq> Abort e'" by simp
    from execute_batch_Completes_but[OF h(2) this] h(1) show ?thesis by simp
  qed
  have in_order: "subseq (fst (uploadJUnitXML False api p)) out"
    if h: "\<not> dryRun this" "getMatchingJUnitXMLFiles w cfg this = (out1, Inr payloads)"
      "p \<in> set payloads" "execute_batch w cfg this api = (out, Completes)"
    using execute_batch_subseq[OF h(4,2,3)] h(1) by simp
  have count: "last out = SuccessfulCommand (length payloads) \<and>
            length (succeeded False api payloads) < length payloads"
    if "getMatchingJUnitXMLFiles w cfg this = (out1, Inr payloads)" "p \<in> set payloads"
      "execute_batch w cfg this api = (out, Completes)"
  proof
    show "last out = SuccessfulCommand (length payloads)"
      using that(3,1) by (rule execute_batch_count)
    show "length (succeeded False api payloads) < length payloads"
      unfolding succeeded_def using that(2) by (rule length_filter_less) (simp add: skip)
  qed
  from err status run calls notices batch count in_order show ?thesis by blast
qed

theorem status_500_six_attempts_then_skip_witness:
  "uploadJUnitXML False (api_always (Rejected (http_error 500))) sample_payload =
     ([ApiUpload ''reports/a.xml'', RetriedUpload ''reports/a.xml'' ''Request failed'' 1,
       ApiUpload ''reports/a.xml'', RetriedUpload ''reports/a.xml'' ''Request failed'' 2,
       ApiUpload ''reports/a.xml'', RetriedUpload ''reports/a.xml'' ''Request failed'' 3,
       ApiUpload ''reports/a.xml'', RetriedUpload ''reports/a.xml'' ''Request failed'' 4,
       ApiUpload ''reports/a.xml'', RetriedUpload ''reports/a.xml'' ''Request failed'' 5,
       ApiUpload ''reports/a.xml'', FailedUpload ''reports/a.xml'' (http_error 500)],
      Skip (http_error 500)) \<and>
   api_calls (fst (uploadJUnitXML False (api_always (Rejected (http_error 500))) sample_payload)) = 6 \<and>
   last (fst (execute_batch (sample_world (api_always (Rejected (http_error 500))))
          sample_config sample_command (api_always (Rejected (http_error 500))))) =
     SuccessfulCommand (length [sample_payload]) \<and>
   length (succeeded False (api_always (Rejected (http_error 500))) [sample_payload]) <
     length [sample_payload] \<and>
   snd (execute_batch
       (two_reports_world (api_for ''reports/a.xml'' (api_always (Rejected (http_error 500)))
          (api_always Uploaded)))
       sample_config two_reports_command
       (api_for ''reports/a.xml'' (api_always (Rejected (http_error 500))) (api_always Uploaded))) =
     Completes"
proof -
  let ?api = "api_always (Rejected (http_error 500))"
  let ?api2 = "api_for ''reports/a.xml'' (api_always (Rejected (http_error 500))) (api_always Uploaded)"
  have always: "\<forall>n. ?api sample_payload n = Rejected ((\<lambda>_. http_error 500) n) \<and>
      response ((\<lambda>_. http_error 500) n) = Some 500"
    by (simp add: api_always_def http_error_def)
  have upt: "[Suc 0..<6] = [Suc 0, 2, 3, 4, 5]"
    by (simp add: upt_rec)
  obtain out where batch:
    "execute_batch (sample_world ?api) sample_config sample_command ?api = (out, Completes)"
    using sample_execute_batch[of ?api _ "Skip (http_error 500)" ?api]
      uploadJUnitXML_exhausted[where api="?api" and p=sample_payload and e="\<lambda>_. http_error 500"]
    by (fastforce simp: api_always_def http_error_def errorCodesNoRetry_def)
  note inst = status_500_six_attempts_then_skip[where api="?api" and p=sample_payload
          and e="\<lambda>_. http_error 500" and this=sample_command
          and w="sample_world ?api" and cfg=sample_config and payloads="[sample_payload]"
          and out=out
          and ?out1.0="[InvalidFile ''reports/b.xml''
                  ''Neither <testsuites> nor <testsuite> are the root tag.'']",
          OF always]
  have count: "last out = SuccessfulCommand (length [sample_payload]) \<and>
      length (succeeded False ?api [sample_payload]) < length [sample_payload]"
  proof -
    have "\<not> dryRun sample_command" by (simp add: sample_command_def)
    moreover have "sample_payload \<in> set [sample_payload]" by simp
    ultimately show ?thesis
      using inst[THEN conjunct2, THEN conjunct2, THEN conjunct2, THEN conjunct2, THEN conjunct1] batch
        sample_getMatchingJUnitXMLFiles[of ?api]
      by blast
  qed
  from inst have run: "\<exists>err \<in> set (map (\<lambda>_. http_error 500) [1..<7]).
            response err = Some 500 \<and>
            uploadJUnitXML False ?api sample_payload =
              (concat (map (\<lambda>n. [ApiUpload (xmlPath sample_payload),
                                    RetriedUpload (xmlPath sample_payload) (message (http_error 500)) n])
                         [1..<6]) @
               [ApiUpload (xmlPath sample_payload), FailedUpload (xmlPath sample_payload) err],
               Skip err)"
    by (rule conjunct1)
  have calls: "api_calls (fst (uploadJUnitXML False ?api sample_payload)) = 6"
    by (rule inst[THEN conjunct2, THEN conjunct1])
  from run have "uploadJUnitXML False ?api sample_payload =
              (concat (map (\<lambda>n. [ApiUpload (xmlPath sample_payload),
                                    RetriedUpload (xmlPath sample_payload) (message (http_error 500)) n])
                         [1..<6]) @
               [ApiUpload (xmlPath sample_payload),
                FailedUpload (xmlPath sample_payload) (http_error 500)],
               Skip (http_error 500))"
    by auto
  moreover have "snd (execute_batch (two_reports_world ?api2) sample_config two_reports_command ?api2) =
      Completes"
  proof -
    have path: "xmlPath sample_payload = ''reports/a.xml''" "xmlPath second_payload = ''reports/c.xml''"
      by (simp_all add: sample_payload_def second_payload_def)
    have always2: "\<forall>n. ?api2 sample_payload n = Rejected ((\<lambda>_. http_error 500) n) \<and>
        response ((\<lambda>_. http_error 500) n) = Some 500"
      by (simp add: api_for_def path api_always_def http_error_def)
    have second: "uploadJUnitXML False ?api2 second_payload = ([ApiUpload ''reports/c.xml''], Success)"
      using uploadJUnitXML_accepted[of ?api2 second_payload]
      by (simp add: api_for_def path api_always_def)
    have dry: "\<not> dryRun two_reports_command"
      by (simp add: two_reports_command_def sample_command_def)
    note inst2 = status_500_six_attempts_then_skip[where api="?api2" and p=sample_payload
          and e="\<lambda>_. http_error 500" and this=two_reports_command
          and w="two_reports_world ?api2" and cfg=sample_config
          and payloads="[sample_payload, second_payload]" and ?out1.0="[]", OF always2]
    show ?thesis
      using inst2[THEN conjunct2, THEN conjunct2, THEN conjunct2, THEN conjunct1]
        dry two_reports_getMatchingJUnitXMLFiles[of ?api2] second
      by simp
  qed
  ultimately show ?thesis
    using calls count batch by (simp add: upt) (simp add: sample_payload_def http_error_def)
qed

text \<open>
  The claim as stated fails in its last part: in the sample world the only payload ends as
  \<open>Skip\<close> after six failures with status 500, and the closing line reports one file.
\<close>

theorem status_500_counted_counterexample:
  "snd (getMatchingJUnitXMLFiles (sample_world (api_always (Rejected (http_error 500))))
          sample_config sample_command) = Inr [sample_payload] \<and>
   snd (uploadJUnitXML False (api_always (Rejected (http_error 500))) sample_payload) =
     Skip (http_error 500) \<and>
   snd (execute_batch (sample_world (api_always (Rejected (http_error 500))))
          sample_config sample_command (api_always (Rejected (http_error 500)))) = Completes \<and>
   last (fst (execute_batch (sample_world (api_always (Rejected (http_error 500))))
          sample_config sample_command (api_always (Rejected (http_error 500))))) =
     SuccessfulCommand 1"
proof -
  let ?api = "api_always (Rejected (http_error 500))"
  have all: "\<forall>n. 1 \<le> n \<and> n < 7 \<longrightarrow>
      ?api sample_payload n = Rejected ((\<lambda>_. http_error 500) n) \<and>
      (\<exists>s. response ((\<lambda>_. http_error 500) n) = Some s \<and> s \<notin> set errorCodesNoRetry)"
    by (simp add: api_always_def http_error_def errorCodesNoRetry_def)
  from uploadJUnitXML_exhausted[where api="?api" and p=sample_payload and e="\<lambda>_. http_error 500", OF all]
  obtain out where run: "uploadJUnitXML False ?api sample_payload = (out, Skip (http_error 500))"
    by auto
  have "execute_batch (sample_world ?api) sample_config sample_command ?api =
          (InvalidFile ''reports/b.xml'' ''Neither <testsuites> nor <testsuite> are the root tag.''
             # out @ [SuccessfulCommand 1], Completes)"
    using run by (rule sample_execute_batch) simp
  with run show ?thesis
    by (simp add: sample_getMatchingJUnitXMLFiles)
qed

section \<open>The closing count\<close>

lemma succeeded_dryRun: "succeeded True api ps = ps"
  by (simp add: succeeded_def uploadJUnitXML_dryRun)

text \<open>
  C1, as amended. When the batch runs to its end, the closing line reports the number of
  payloads that were scheduled: the unique candidate files that passed validation, so no
  invalid file is counted. Each of them ended as a successful upload or as an upload that
  was skipped after a failure, and both are counted. Under dry-run every payload is a
  successful (would-be) upload, and the count is their number.
\<close>

theorem reported_count_is_number_of_payloads:
  assumes "execute_batch w cfg this api = (out, Completes)"
  shows "\<exists>out1 payloads.
           getMatchingJUnitXMLFiles w cfg this = (out1, Inr payloads) \<and>
           last out = SuccessfulCommand (length payloads) \<and>
           map xmlPath payloads =
             filter (passes_validation w)
               (new_Set (jUnitXMLFiles w (case basePaths this of Some bs \<Rightarrow> bs | None \<Rightarrow> []))) \<and>
           length payloads =
             length (succeeded (dryRun this) api payloads) +
             length (upload_skipped (dryRun this) api payloads) \<and>
           (dryRun this \<longrightarrow> length payloads = length (succeeded True api payloads))"
proof -
  from execute_batch_Completes[OF assms] obtain out1 out2 payloads where
    gm: "getMatchingJUnitXMLFiles w cfg this = (out1, Inr payloads)"
    and pool: "asyncPool (schedule w) (maxConcurrency this) payloads
                 (uploadJUnitXML (dryRun this) api) = (out2, None)"
    and out: "out = out1 @ out2 @ [SuccessfulCommand (length payloads)]"
    by blast
  have count: "last out = SuccessfulCommand (length payloads)"
    by (simp add: out)
  have paths: "map xmlPath payloads =
             filter (passes_validation w)
               (new_Set (jUnitXMLFiles w (case basePaths this of Some bs \<Rightarrow> bs | None \<Rightarrow> [])))"
    using gm by (rule getMatchingJUnitXMLFiles_paths)
  have "snd (uploadJUnitXML (dryRun this) api p) \<noteq> Abort e" if "p \<in> set payloads" for p e
    using pool that by (rule asyncPool_None_no_Abort)
  then have split: "length payloads =
             length (succeeded (dryRun this) api payloads) +
             length (upload_skipped (dryRun this) api payloads)"
    by (rule length_succeeded_skipped)
  have dry: "dryRun this \<longrightarrow> length payloads = length (succeeded True api payloads)"
    by (simp add: succeeded_dryRun)
  from gm count paths split dry show ?thesis by blast
qed

theorem reported_count_is_number_of_payloads_witness:
  "last (fst (execute_batch (sample_world (api_always Uploaded)) sample_config sample_command
        (api_always Uploaded))) = SuccessfulCommand 1 \<and>
   length (succeeded False (api_always Uploaded) [sample_payload]) +
     length (upload_skipped False (api_always Uploaded) [sample_payload]) = 1"
proof -
  let ?api = "api_always Uploaded"
  have "upload_attempt False ?api sample_payload 1 = ([ApiUpload (xmlPath sample_payload)], Resolved)"
    by (simp add: upload_attempt_def api_always_def)
  then have "retry 5 (upload_attempt False ?api sample_payload) onRetry 1 [] =
               ([ApiUpload (xmlPath sample_payload)], None)" for onRetry
    by (rule retry_resolved)
  then have up: "uploadJUnitXML False ?api sample_payload =
               ([ApiUpload (xmlPath sample_payload)], Success)"
    by (simp add: uploadJUnitXML_def)
  obtain out where batch:
    "execute_batch (sample_world ?api) sample_config sample_command ?api = (out, Completes)"
    using sample_execute_batch[OF up] by simp
  have dr: "dryRun sample_command = False" by (simp add: sample_command_def)
  from reported_count_is_number_of_payloads[OF batch] show ?thesis
    by (simp add: batch sample_getMatchingJUnitXMLFiles dr)
qed

text \<open>
  The claim as stated fails where an upload is skipped: in the sample world the only
  payload is refused with status 413, no upload succeeds, and the closing line reports one
  file.
\<close>

theorem reported_count_counterexample:
  "snd (getMatchingJUnitXMLFiles (sample_world (api_always (Rejected (http_error 413))))
          sample_config sample_command) = Inr [sample_payload] \<and>
   succeeded False (api_always (Rejected (http_error 413))) [sample_payload] = [] \<and>
   execute_batch (sample_world (api_always (Rejected (http_error 413))))
          sample_config sample_command (api_always (Rejected (http_error 413))) =
     ([InvalidFile ''reports/b.xml'' ''Neither <testsuites> nor <testsuite> are the root tag.'',
       ApiUpload ''reports/a.xml'',
       FailedUpload ''reports/a.xml'' (http_error 413),
       SuccessfulCommand 1], Completes)"
proof -
  let ?api = "api_always (Rejected (http_error 413))"
  have "upload_attempt False ?api sample_payload 1 =
          ([ApiUpload (xmlPath sample_payload)], Bailed (http_error 413))"
    by (simp add: upload_attempt_def api_always_def http_error_def errorCodesNoRetry_def)
  then have "retry 5 (upload_attempt False ?api sample_payload) onRetry 1 [] =
               ([ApiUpload (xmlPath sample_payload)], Some (http_error 413))" for onRetry
    by (rule retry_bailed)
  then have up: "uploadJUnitXML False ?api sample_payload =
          ([ApiUpload ''reports/a.xml'', FailedUpload ''reports/a.xml'' (http_error 413)],
           Skip (http_error 413))"
    by (simp add: uploadJUnitXML_def http_error_def errorCodesStopUpload_def sample_payload_def)
  have "execute_batch (sample_world ?api) sample_config sample_command ?api =
     (InvalidFile ''reports/b.xml'' ''Neither <testsuites> nor <testsuite> are the root tag.''
        # [ApiUpload ''reports/a.xml'', FailedUpload ''reports/a.xml'' (http_error 413)]
        @ [SuccessfulCommand 1], Completes)"
    using up by (rule sample_execute_batch) simp
  then show ?thesis
    by (simp add: sample_getMatchingJUnitXMLFiles succeeded_def up)
qed

section \<open>The tags of the payloads\<close>

lemma explicit_env_lookup:
  "(if truthy e then (case e of Some v \<Rightarrow> [''env'' \<mapsto> v] | None \<Rightarrow> Map.empty) else Map.empty) k =
     (if k = ''env'' \<and> truthy e then e else None)"
  by (cases e) (simp_all add: truthy_def)

lemma mergeSpanTags_lookup:
  "mergeSpanTags g c cl ev e k =
     (if k = ''env'' \<and> truthy e then e
      else (case ev k of
              Some v \<Rightarrow> Some v
            | None \<Rightarrow>
                (case cl k of
                   Some v \<Rightarrow> Some v
                 | None \<Rightarrow> (case c k of Some v \<Rightarrow> Some v | None \<Rightarrow> g k))))"
  unfolding mergeSpanTags_def map_add_def explicit_env_lookup
  by (cases e) (auto simp: truthy_def split: option.splits)

lemma mergeSpanTags_dom:
  "dom (mergeSpanTags g c cl ev e) =
     dom g \<union> dom c \<union> dom cl \<union> dom ev \<union> (if truthy e then {''env''} else {})"
  by (cases e) (auto simp: mergeSpanTags_def truthy_def)

text \<open>The tags of every payload are the merge of the five sources, in this order.\<close>

lemma getMatchingJUnitXMLFiles_spanTags:
  assumes gm: "getMatchingJUnitXMLFiles w cfg this = (out, Inr payloads)" and p: "p \<in> set payloads"
  shows "spanTags p =
           mergeSpanTags (getGitMetadata w) (getCISpanTags w)
             (case tags this of Some ts \<Rightarrow> parseTags w ts | None \<Rightarrow> Map.empty)
             (case config.envVarTags cfg of
                Some s \<Rightarrow> if s \<noteq> [] then parseTags w (split_comma s) else Map.empty
              | None \<Rightarrow> Map.empty)
             (config.env cfg)"
proof -
  have ev: "(if truthy (config.envVarTags cfg)
             then (case config.envVarTags cfg of
                     Some s \<Rightarrow> parseTags w (split_comma s) | None \<Rightarrow> Map.empty)
             else Map.empty) =
            (case config.envVarTags cfg of
                Some s \<Rightarrow> if s \<noteq> [] then parseTags w (split_comma s) else Map.empty
              | None \<Rightarrow> Map.empty)"
    by (cases "config.envVarTags cfg") (simp_all add: truthy_def)
  from gm p show ?thesis
    unfolding getMatchingJUnitXMLFiles_def Let_def ev
    by (auto split: prod.splits sum.splits)
qed

text \<open>The payloads of the sample world with tags, for any configuration.\<close>

lemma tagged_getMatchingJUnitXMLFiles:
  "getMatchingJUnitXMLFiles tagged_world cfg tagged_command =
     ([InvalidFile ''reports/b.xml'' ''Neither <testsuites> nor <testsuite> are the root tag.''],
      Inr [\<lparr>payload.service = ''svc'',
            spanTags =
              mergeSpanTags sample_gitSpanTags sample_ciSpanTags sample_cliTags
                (if truthy (config.envVarTags cfg)
                 then (case config.envVarTags cfg of
                         Some s \<Rightarrow> parseTags tagged_world (split_comma s)
                       | None \<Rightarrow> Map.empty)
                 else Map.empty)
                (config.env cfg),
            xmlPath = ''reports/a.xml''\<rparr>])"
proof -
  have same: "extname tagged_world = extname (sample_world (api_always Uploaded))"
    "existsSync tagged_world = existsSync (sample_world (api_always Uploaded))"
    "readFileSync tagged_world = readFileSync (sample_world (api_always Uploaded))"
    "glob_sync tagged_world = glob_sync (sample_world (api_always Uploaded))"
    "buildPath tagged_world = buildPath (sample_world (api_always Uploaded))"
    "xml_validate tagged_world = xml_validate (sample_world (api_always Uploaded))"
    "xml_parse tagged_world = xml_parse (sample_world (api_always Uploaded))"
    by (simp_all add: tagged_world_def)
  have files: "jUnitXMLFiles tagged_world [''reports'', ''reports/a.xml'', ''missing.xml''] =
      [''reports/a.xml'', ''reports/b.xml'', ''reports/a.xml'']"
    by (simp add: jUnitXMLFiles_def jUnitXMLFiles_step_def same sample_extname sample_exists
        sample_glob)
  have v: "validateXml tagged_world = validateXml (sample_world (api_always Uploaded))"
    by (rule ext) (simp add: validateXml_def same split: option.splits)
  have vu: "validUniqueFiles tagged_world [''reports/a.xml'', ''reports/b.xml''] =
      ([InvalidFile ''reports/b.xml'' ''Neither <testsuites> nor <testsuite> are the root tag.''],
       Inr [''reports/a.xml''])"
    by (simp add: v sample_validate_a sample_validate_b truthy_def)
  have fields: "basePaths tagged_command = Some [''reports'', ''reports/a.xml'', ''missing.xml'']"
    "tags tagged_command = Some [''team:from-cli'', ''env:staging'']"
    "command.service tagged_command = Some ''svc''"
    by (simp_all add: tagged_command_def sample_command_def)
  have sources: "getCISpanTags tagged_world = sample_ciSpanTags"
    "getGitMetadata tagged_world = sample_gitSpanTags"
    "parseTags tagged_world [''team:from-cli'', ''env:staging''] = sample_cliTags"
    by (simp_all add: tagged_world_def)
  show ?thesis
    unfolding getMatchingJUnitXMLFiles_def fields option.case sources Let_def files sample_new_Set vu
    by simp
qed

text \<open>
  C5, as amended. For every payload that is scheduled, the value of a key in its tags is
  that of the highest source that has the key: the explicit env (for the key \<open>env\<close>, when
  \<^verbatim>\<open>this.config.env\<close> is set and not empty), then the tags parsed from the variable
  \<^verbatim>\<open>DD_TAGS\<close> (split at the commas), the tags parsed from \<^verbatim>\<open>--tags\<close>, the CI tags, the
  git tags. The merge is total: a key in several sources is overwritten. The key \<open>env\<close> is
  in the tags exactly when the explicit env is set or one of the four tag sources has the
  key. The tag list of the configuration is the variable \<^verbatim>\<open>DD_TAGS\<close>.
\<close>

theorem spanTags_precedence:
  assumes gm: "getMatchingJUnitXMLFiles w cfg this = (out, Inr payloads)" and p: "p \<in> set payloads"
  defines "cliTags \<equiv> (case tags this of Some ts \<Rightarrow> parseTags w ts | None \<Rightarrow> Map.empty)"
    and "envVarTagsMap \<equiv>
           (case config.envVarTags cfg of
              Some s \<Rightarrow> if s \<noteq> [] then parseTags w (split_comma s) else Map.empty
            | None \<Rightarrow> Map.empty)"
  shows "spanTags p k =
           (if k = ''env'' \<and> truthy (config.env cfg) then config.env cfg
            else (case envVarTagsMap k of
                    Some v \<Rightarrow> Some v
                  | None \<Rightarrow>
                      (case cliTags k of
                         Some v \<Rightarrow> Some v
                       | None \<Rightarrow>
                           (case getCISpanTags w k of
                              Some v \<Rightarrow> Some v
                            | None \<Rightarrow> getGitMetadata w k)))) \<and>
         dom (spanTags p) =
           dom (getGitMetadata w) \<union> dom (getCISpanTags w) \<union> dom cliTags \<union> dom envVarTagsMap \<union>
             (if truthy (config.env cfg) then {''env''} else {}) \<and>
         (''env'' \<in> dom (spanTags p)) =
           (truthy (config.env cfg) \<or>
            ''env'' \<in> dom (getGitMetadata w) \<union> dom (getCISpanTags w) \<union> dom cliTags \<union> dom envVarTagsMap) \<and>
         config.envVarTags (resolve_env (initial_config penv) this') = DD_TAGS penv"
proof (intro conjI)
  note tags = getMatchingJUnitXMLFiles_spanTags[OF gm p, folded cliTags_def envVarTagsMap_def]
  show "spanTags p k =
           (if k = ''env'' \<and> truthy (config.env cfg) then config.env cfg
            else (case envVarTagsMap k of
                    Some v \<Rightarrow> Some v
                  | None \<Rightarrow>
                      (case cliTags k of
                         Some v \<Rightarrow> Some v
                       | None \<Rightarrow>
                           (case getCISpanTags w k of
                              Some v \<Rightarrow> Some v
                            | None \<Rightarrow> getGitMetadata w k))))"
    unfolding tags by (rule mergeSpanTags_lookup)
  show d: "dom (spanTags p) =
           dom (getGitMetadata w) \<union> dom (getCISpanTags w) \<union> dom cliTags \<union> dom envVarTagsMap \<union>
             (if truthy (config.env cfg) then {''env''} else {})"
    unfolding tags by (rule mergeSpanTags_dom)
  show "(''env'' \<in> dom (spanTags p)) =
           (truthy (config.env cfg) \<or>
            ''env'' \<in> dom (getGitMetadata w) \<union> dom (getCISpanTags w) \<union> dom cliTags \<union> dom envVarTagsMap)"
    unfolding d by auto
  show "config.envVarTags (resolve_env (initial_config penv) this') = DD_TAGS penv"
    by (simp add: resolve_env_def initial_config_def)
qed

theorem spanTags_precedence_witness:
  "map (\<lambda>p. (xmlPath p, spanTags p ''team'', spanTags p ''env'', spanTags p ''ci.job'',
              spanTags p ''git.branch'', spanTags p ''other''))
     (case snd (getMatchingJUnitXMLFiles tagged_world tagged_config tagged_command) of
        Inr payloads \<Rightarrow> payloads | Inl e \<Rightarrow> []) =
     [(''reports/a.xml'', Some ''from-dd-tags'', Some ''prod'', Some ''42'', Some ''main'', None)]"
proof -
  let ?p = "\<lparr>payload.service = ''svc'',
             spanTags = mergeSpanTags sample_gitSpanTags sample_ciSpanTags sample_cliTags
                          sample_envVarTags (Some ''prod''),
             xmlPath = ''reports/a.xml''\<rparr>"
  have fields: "tags tagged_command = Some [''team:from-cli'', ''env:staging'']"
    "config.env tagged_config = Some ''prod''"
    "config.envVarTags tagged_config = Some ''team:from-dd-tags''"
    by (simp_all add: tagged_command_def sample_command_def tagged_config_def)
  have sources: "getCISpanTags tagged_world = sample_ciSpanTags"
    "getGitMetadata tagged_world = sample_gitSpanTags"
    "parseTags tagged_world [''team:from-cli'', ''env:staging''] = sample_cliTags"
    "parseTags tagged_world (split_comma ''team:from-dd-tags'') = sample_envVarTags"
    by (simp_all add: tagged_world_def)
  have gm: "getMatchingJUnitXMLFiles tagged_world tagged_config tagged_command =
      ([InvalidFile ''reports/b.xml'' ''Neither <testsuites> nor <testsuite> are the root tag.''],
       Inr [?p])"
    unfolding tagged_getMatchingJUnitXMLFiles fields option.case sources
    by (simp add: truthy_def)
  have p: "?p \<in> set [?p]" by simp
  have look: "spanTags ?p k =
      (if k = ''env'' then Some ''prod''
       else (case sample_envVarTags k of
               Some v \<Rightarrow> Some v
             | None \<Rightarrow>
                 (case sample_cliTags k of
                    Some v \<Rightarrow> Some v
                  | None \<Rightarrow>
                      (case sample_ciSpanTags k of
                         Some v \<Rightarrow> Some v
                       | None \<Rightarrow> sample_gitSpanTags k))))" for k
    using spanTags_precedence[OF gm p, THEN conjunct1, unfolded fields option.case sources, of k]
    by (simp add: truthy_def)
  have "spanTags ?p ''team'' = Some ''from-dd-tags''"
    "spanTags ?p ''env'' = Some ''prod''"
    "spanTags ?p ''ci.job'' = Some ''42''"
    "spanTags ?p ''git.branch'' = Some ''main''"
    "spanTags ?p ''other'' = None"
    unfolding look
    by (simp_all add: sample_gitSpanTags_def sample_ciSpanTags_def sample_cliTags_def
        sample_envVarTags_def)
  with gm show ?thesis by simp
qed

text \<open>
  The claim as stated fails in its last part: with \<^verbatim>\<open>--tags env:staging\<close> and no explicit
  env, the merged tags have the key \<open>env\<close>, and so have the tags of the payload that is
  scheduled.
\<close>

theorem env_key_without_explicit_env_counterexample:
  "\<not> truthy None \<and>
   mergeSpanTags Map.empty Map.empty sample_cliTags Map.empty None ''env'' = Some ''staging'' \<and>
   ''env'' \<in> dom (mergeSpanTags Map.empty Map.empty sample_cliTags Map.empty None) \<and>
   config.env sample_config = None \<and>
   map (\<lambda>p. (xmlPath p, spanTags p ''env''))
     (case snd (getMatchingJUnitXMLFiles tagged_world sample_config tagged_command) of
        Inr payloads \<Rightarrow> payloads | Inl e \<Rightarrow> []) =
     [(''reports/a.xml'', Some ''staging'')]"
proof -
  have cfg: "config.env sample_config = None" "config.envVarTags sample_config = None"
    by (simp_all add: sample_config_def)
  have "mergeSpanTags sample_gitSpanTags sample_ciSpanTags sample_cliTags Map.empty None ''env'' =
      Some ''staging''"
    by (simp add: mergeSpanTags_def truthy_def sample_cliTags_def)
  then show ?thesis
    unfolding tagged_getMatchingJUnitXMLFiles cfg
    by (simp add: mergeSpanTags_def truthy_def sample_cliTags_def dom_def)
qed

text \<open>
  C9. The explicit env is \<^verbatim>\<open>DD_ENV\<close> when that variable is set to a non-empty string,
  whatever \<^verbatim>\<open>--env\<close> is; the value of \<^verbatim>\<open>--env\<close> is taken only when \<^verbatim>\<open>DD_ENV\<close> is unset
  (or empty). The same holds for the \<open>env\<close> tag of the payloads.
\<close>

theorem dd_env_wins_over_env_option:
  "config.env (resolve_env (initial_config penv) this) =
     (if truthy (DD_ENV penv) then DD_ENV penv else command.env this) \<and>
   mergeSpanTags g c cl ev (config.env (resolve_env (initial_config penv) this)) ''env'' =
     (if truthy (DD_ENV penv) then DD_ENV penv
      else if truthy (command.env this) then command.env this
      else (g ++ c ++ cl ++ ev) ''env'')"
proof -
  have env: "config.env (resolve_env (initial_config penv) this) =
     (if truthy (DD_ENV penv) then DD_ENV penv else command.env this)"
    by (simp add: resolve_env_def initial_config_def)
  have "mergeSpanTags g c cl ev x ''env'' = (if truthy x then x else (g ++ c ++ cl ++ ev) ''env'')" for x
    by (cases x) (simp_all add: mergeSpanTags_def truthy_def)
  with env show ?thesis by simp
qed

theorem dd_env_wins_over_env_option_witness:
  "config.env (resolve_env (initial_config sample_process_env)
      (sample_command\<lparr>command.env := Some ''dev''\<rparr>)) = Some ''prod'' \<and>
   config.env (resolve_env (initial_config (sample_process_env\<lparr>DD_ENV := None\<rparr>))
      (sample_command\<lparr>command.env := Some ''dev''\<rparr>)) = Some ''dev''"
  using dd_env_wins_over_env_option[of sample_process_env "sample_command\<lparr>command.env := Some ''dev''\<rparr>"]
    dd_env_wins_over_env_option[of "sample_process_env\<lparr>DD_ENV := None\<rparr>"
      "sample_command\<lparr>command.env := Some ''dev''\<rparr>"]
  by (simp add: sample_process_env_def truthy_def)

section \<open>The files that are scheduled\<close>








text \<open>
  C10. Whether a base path is taken as one file depends on its extension alone. With an
  extension it contributes itself when it exists and nothing otherwise, and no pattern is
  expanded, whatever the path names on disk. Without an extension it contributes the
  matches of \<^verbatim>\<open>*.xml\<close> under it, whether or not it exists; an existing file without an
  extension is among the candidates it contributes only if the expansion returns it.
\<close>

theorem single_file_iff_extension:
  "(extname w b \<noteq> [] \<longrightarrow>
      jUnitXMLFiles w (bs @ [b]) = jUnitXMLFiles w bs @ (if existsSync w b then [b] else [])) \<and>
   (extname w b = [] \<longrightarrow>
      jUnitXMLFiles w (bs @ [b]) = jUnitXMLFiles w bs @ glob_sync w (buildPath w b ''*.xml'')) \<and>
   (extname w b = [] \<and> existsSync w b \<and> b \<notin> set (glob_sync w (buildPath w b ''*.xml'')) \<longrightarrow>
      b \<notin> set (candidates_of w b)) \<and>
   (extname w b \<noteq> [] \<longrightarrow> candidates_of (w\<lparr>glob_sync := g\<rparr>) b = candidates_of w b) \<and>
   (extname w b = [] \<longrightarrow> candidates_of (w\<lparr>existsSync := ex\<rparr>) b = candidates_of w b)"
  by (simp add: jUnitXMLFiles_concat candidates_of_eq)

theorem single_file_iff_extension_witness:
  "jUnitXMLFiles (sample_world (api_always Uploaded)) ([] @ [''reports/a.xml'']) = [''reports/a.xml''] \<and>
   jUnitXMLFiles (sample_world (api_always Uploaded)) ([] @ [''missing.xml'']) = [] \<and>
   jUnitXMLFiles (sample_world (api_always Uploaded)) ([] @ [''reports'']) =
     [''reports/a.xml'', ''reports/b.xml''] \<and>
   existsSync (sample_world (api_always Uploaded)) ''reports'' \<and>
   ''reports'' \<notin> set (candidates_of (sample_world (api_always Uploaded)) ''reports'')"
proof -
  let ?w = "sample_world (api_always Uploaded)"
  have ext: "extname ?w ''reports/a.xml'' \<noteq> []" "extname ?w ''missing.xml'' \<noteq> []"
    "extname ?w ''reports'' = []"
    by (simp_all add: sample_extname)
  have ex: "existsSync ?w ''reports/a.xml''" "\<not> existsSync ?w ''missing.xml''"
    "existsSync ?w ''reports''"
    by (simp_all add: sample_world_def)
  have glob: "glob_sync ?w (buildPath ?w ''reports'' ''*.xml'') = [''reports/a.xml'', ''reports/b.xml'']"
    by (rule sample_glob)
  have nil: "jUnitXMLFiles ?w [] = []" by (simp add: jUnitXMLFiles_def)
  show ?thesis
    using single_file_iff_extension[of ?w "''reports/a.xml''" "[]"]
      single_file_iff_extension[of ?w "''missing.xml''" "[]"]
      single_file_iff_extension[of ?w "''reports''" "[]"]
    by (simp only: ext ex glob nil) simp
qed

subsection \<open>Validation\<close>

text \<open>
  What \<^verbatim>\<open>validateXml\<close> returns for a file that can be read: the message of the parser when
  the content is not well-formed; otherwise nothing when the parsed object has a truthy
  value under \<^verbatim>\<open>testsuites\<close> or \<^verbatim>\<open>testsuite\<close>, and the fixed message when it has not.
\<close>

lemma validateXml_readable_eq:
  assumes "readFileSync w f = Some content"
  shows "validateXml w f =
           Inr (case xml_validate w content of
                  Some msg \<Rightarrow> Some msg
                | None \<Rightarrow>
                    if js_truthy (xml_parse w content ''testsuites'') \<or>
                       js_truthy (xml_parse w content ''testsuite'')
                    then None
                    else Some ''Neither <testsuites> nor <testsuite> are the root tag.'')"
  using assms by (simp add: validateXml_def Let_def split: option.splits)

text \<open>
  C7 fails on the code for a report whose root element is empty: the file is well-formed
  and its root is \<^verbatim>\<open>testsuites\<close>, yet \<^verbatim>\<open>validateXml\<close> returns the message that says the
  root is neither of the two tags, since the test is on the truthiness of the parsed value.
\<close>

theorem empty_report_is_rejected:
  "readFileSync empty_report_world ''reports/empty.xml'' = Some ''<testsuites></testsuites>'' \<and>
   xml_validate empty_report_world ''<testsuites></testsuites>'' = None \<and>
   xml_parse empty_report_world ''<testsuites></testsuites>'' ''testsuites'' = Some (JString []) \<and>
   validateXml empty_report_world ''reports/empty.xml'' =
     Inr (Some ''Neither <testsuites> nor <testsuite> are the root tag.'')"
  by (simp add: validateXml_def empty_report_world_def js_truthy_def)

section \<open>Dry-run and empty batches\<close>

text \<open>
  Under dry-run an upload makes no call of the endpoint: it writes the dry-run line for
  the payload and returns, whatever the endpoint would answer, so a batch under dry-run
  never throws an upload error; it writes one dry-run line for each payload, in an order
  that depends on the schedule.
\<close>

theorem dry_run_makes_no_call:
  "uploadJUnitXML True api p = ([DryRunUpload (xmlPath p)], Success) \<and>
   api_calls (fst (uploadJUnitXML True api p)) = 0 \<and>
   snd (asyncPool sched limit ps (uploadJUnitXML True api)) = None \<and>
   mset (fst (asyncPool sched limit ps (uploadJUnitXML True api))) =
     mset (map (\<lambda>p. DryRunUpload (xmlPath p)) ps)"
proof -
  have up: "uploadJUnitXML True api q = ([DryRunUpload (xmlPath q)], Success)" for q
    by (simp add: uploadJUnitXML_def upload_attempt_def numeral_eq_Suc)
  have none: "snd (asyncPool sched limit ps (uploadJUnitXML True api)) = None"
    by (simp add: asyncPool_None_iff up)
  have "concat (map (\<lambda>p. fst (uploadJUnitXML True api p)) ps) =
      map (\<lambda>p. DryRunUpload (xmlPath p)) ps"
    by (induction ps) (simp_all add: up)
  with asyncPool_events(1)[OF none] up none show ?thesis by (simp add: api_calls_def)
qed

text \<open>
  When no candidate file is left after validation, the batch runs to its end and the
  closing line reports 0 files.
\<close>

theorem no_payloads_complete_with_zero:
  assumes "getMatchingJUnitXMLFiles w cfg this = (out1, Inr [])"
  shows "execute_batch w cfg this api = (out1 @ [SuccessfulCommand 0], Completes)"
  using assms by (simp add: execute_batch_def asyncPool_def pool_loop_done)

theorem no_payloads_complete_with_zero_witness:
  "execute_batch (sample_world (api_always Uploaded)) sample_config
      (sample_command\<lparr>basePaths := Some [''missing.xml'']\<rparr>) (api_always Uploaded) =
     ([SuccessfulCommand 0], Completes)"
proof -
  let ?w = "sample_world (api_always Uploaded)"
  have files: "jUnitXMLFiles ?w [''missing.xml''] = []"
    by (simp add: jUnitXMLFiles_def jUnitXMLFiles_step_def sample_extname sample_exists)
  have "getMatchingJUnitXMLFiles ?w sample_config (sample_command\<lparr>basePaths := Some [''missing.xml'']\<rparr>) =
          ([], Inr [])"
    by (simp add: getMatchingJUnitXMLFiles_def files new_Set_def)
  from no_payloads_complete_with_zero[OF this] show ?thesis by simp
qed

end
